theory Spec2Isabelle
  imports Main "HOL-Library.Word"
begin

section \<open>The outgoing-message adapter of fetch-to-node (http-server.ts)\<close>

text \<open>
  The development embeds \<^verbatim>\<open>src/fetch-to-node-broken/http-server.ts\<close>: the header codec
  helpers, the status-code table, the class \<^verbatim>\<open>FetchServerResponse\<close> (constructor,
  \<^verbatim>\<open>dataFromDataWrittenEvent\<close>, \<^verbatim>\<open>_implicitHeader\<close>, \<^verbatim>\<open>writeHead\<close>, \<^verbatim>\<open>_toFetchResponse\<close>) and
  \<^verbatim>\<open>toReqRes\<close>.

  Conventions. A JavaScript string is a \<^typ>\<open>string\<close>, one \<^typ>\<open>char\<close> per code unit, so
  the model covers the strings whose code units are below 256. A number that is used as a
  status code is an \<^typ>\<open>int\<close> (integer-valued numbers only). A method that can throw
  returns \<open>(error option, state)\<close>: \<open>Some e\<close> is the exception, and the state is the
  object as the throw leaves it, including every assignment made before the throw.
  Identifiers that start with an underscore in the source start with \<open>u_\<close> here.
\<close>

subsection \<open>Errors\<close>

datatype error =
    ERR_HTTP_HEADERS_SENT string
  | ERR_HTTP_INVALID_STATUS_CODE int
  | ERR_INVALID_ARG_TYPE string
  | ERR_INVALID_ARG_VALUE string
  | ERR_INVALID_CHAR string
  | ERR_METHOD_NOT_IMPLEMENTED string
  | TypeError string
  | RangeError string

subsection \<open>Header codec helpers\<close>

text \<open>\<^verbatim>\<open>headerCharRegex = /[^\t\x20-\x7e\x80-\xff]/\<close>: the characters the class excludes.\<close>

definition headerChar_ok :: "char \<Rightarrow> bool" where
  "headerChar_ok c =
     (let n = (of_char c :: nat)
      in n = 9 \<or> (32 \<le> n \<and> n \<le> 126) \<or> (128 \<le> n \<and> n \<le> 255))"

definition checkInvalidHeaderChar :: "string \<Rightarrow> bool" where
  "checkInvalidHeaderChar val = list_ex (\<lambda>c. \<not> headerChar_ok c) val"

definition STATUS_CODES :: "int \<Rightarrow> string option" where
  "STATUS_CODES = map_of
    [(100, ''Continue''), (101, ''Switching Protocols''), (102, ''Processing''),
     (103, ''Early Hints''), (200, ''OK''), (201, ''Created''), (202, ''Accepted''),
     (203, ''Non-Authoritative Information''), (204, ''No Content''),
     (205, ''Reset Content''), (206, ''Partial Content''), (207, ''Multi-Status''),
     (208, ''Already Reported''), (226, ''IM Used''), (300, ''Multiple Choices''),
     (301, ''Moved Permanently''), (302, ''Found''), (303, ''See Other''),
     (304, ''Not Modified''), (305, ''Use Proxy''), (307, ''Temporary Redirect''),
     (308, ''Permanent Redirect''), (400, ''Bad Request''), (401, ''Unauthorized''),
     (402, ''Payment Required''), (403, ''Forbidden''), (404, ''Not Found''),
     (405, ''Method Not Allowed''), (406, ''Not Acceptable''),
     (407, ''Proxy Authentication Required''), (408, ''Request Timeout''),
     (409, ''Conflict''), (410, ''Gone''), (411, ''Length Required''),
     (412, ''Precondition Failed''), (413, ''Payload Too Large''),
     (414, ''URI Too Long''), (415, ''Unsupported Media Type''),
     (416, ''Range Not Satisfiable''), (417, ''Expectation Failed''),
     (418, ''I'm a Teapot''), (421, ''Misdirected Request''),
     (422, ''Unprocessable Entity''), (423, ''Locked''), (424, ''Failed Dependency''),
     (425, ''Too Early''), (426, ''Upgrade Required''), (428, ''Precondition Required''),
     (429, ''Too Many Requests''), (431, ''Request Header Fields Too Large''),
     (451, ''Unavailable For Legal Reasons''), (500, ''Internal Server Error''),
     (501, ''Not Implemented''), (502, ''Bad Gateway''), (503, ''Service Unavailable''),
     (504, ''Gateway Timeout''), (505, ''HTTP Version Not Supported''),
     (506, ''Variant Also Negotiates''), (507, ''Insufficient Storage''),
     (508, ''Loop Detected''), (509, ''Bandwidth Limit Exceeded''),
     (510, ''Not Extended''), (511, ''Network Authentication Required'')]"

text \<open>JavaScript's \<^verbatim>\<open>a || b\<close> on a string that may be undefined: the empty string is falsy.\<close>

definition str_or :: "string option \<Rightarrow> string \<Rightarrow> string" where
  "str_or a b = (case a of None \<Rightarrow> b | Some s \<Rightarrow> if s = [] then b else s)"

text \<open>\<^verbatim>\<open>statusCode |= 0\<close>: ToInt32 of an integer-valued number.\<close>

definition toInt32 :: "int \<Rightarrow> int" where
  "toInt32 n = (n + 2 ^ 31) mod 2 ^ 32 - 2 ^ 31"

text \<open>The decimal text of a number, as a template literal or \<^verbatim>\<open>String(n)\<close> renders it.\<close>

function string_of_nat :: "nat \<Rightarrow> string" where
  "string_of_nat n =
     (if n < 10 then [''0123456789'' ! n]
      else string_of_nat (n div 10) @ [''0123456789'' ! (n mod 10)])"
  by pat_completeness auto
termination
  by (relation "measure id") auto

definition string_of_int :: "int \<Rightarrow> string" where
  "string_of_int i = (if i < 0 then CHR ''-'' # string_of_nat (nat (- i)) else string_of_nat (nat i))"

subsection \<open>Write-buffer entries and chunk materialization\<close>

type_synonym byte = "8 word"

text \<open>
  The \<^verbatim>\<open>data\<close> of a written entry at run time: a string, a \<^verbatim>\<open>Buffer\<close> or \<^verbatim>\<open>Uint8Array\<close>,
  \<^verbatim>\<open>null\<close> or \<^verbatim>\<open>undefined\<close>, or any other value (a number, for instance). The same type
  serves for the chunks handed to the stream controller, where \<open>Nullish\<close> is what a hole
  of the sparse array \<^verbatim>\<open>initialDataChunks\<close> yields.
\<close>

datatype payload = Str string | Bin "byte list" | Nullish | Other

datatype enc = EUndefined | ENull | EStr string

datatype entry = Entry (data: payload) (encoding: enc)

text \<open>
  \<^verbatim>\<open>TextEncoder.encode\<close> on code units below 256: one byte below 128, two bytes above.
\<close>

definition utf8_char :: "char \<Rightarrow> byte list" where
  "utf8_char c =
     (let n = (of_char c :: nat)
      in if n < 128 then [of_nat n]
         else [of_nat (192 + n div 64), of_nat (128 + n mod 64)])"

definition encode :: "string \<Rightarrow> byte list" where
  "encode s = concat (map utf8_char s)"

text \<open>
  \<^verbatim>\<open>Buffer.from(string, encoding)\<close> belongs to the platform and is a parameter: it takes
  the string and the encoding name (\<open>None\<close> for \<^verbatim>\<open>undefined\<close>) and returns the bytes, or
  throws.
\<close>

type_synonym buffer_from = "string \<Rightarrow> string option \<Rightarrow> error + byte list"

text \<open>
  \<^verbatim>\<open>dataFromDataWrittenEvent(e)\<close>; \<open>whb\<close> is \<^verbatim>\<open>this.writtenHeaderBytes\<close>. The call of
  \<^verbatim>\<open>console.error\<close> before the throw is not modelled.
\<close>

definition strip_first :: "nat \<Rightarrow> nat \<Rightarrow> payload \<Rightarrow> error + payload" where
  "strip_first whb index d =
     (if index = 0 then
        (case d of
           Str s \<Rightarrow> Inr (Str (drop whb s))
         | _ \<Rightarrow> Inl (ERR_INVALID_ARG_TYPE ''packet.data''))
      else Inr d)"

definition encode_data :: "buffer_from \<Rightarrow> payload \<Rightarrow> enc \<Rightarrow> error + payload" where
  "encode_data bf d en =
     (case d of
        Str s \<Rightarrow>
          (if en = EUndefined \<or> en = EStr ''utf8'' \<or> en = EStr ''utf-8''
           then Inr (Bin (encode s))
           else (case bf s (case en of EStr n \<Rightarrow> Some n | _ \<Rightarrow> None) of
                   Inl err \<Rightarrow> Inl err
                 | Inr bs \<Rightarrow> Inr (Bin bs)))
      | Nullish \<Rightarrow> Inr (Bin [])
      | _ \<Rightarrow> Inr d)"

definition dataFromDataWrittenEvent ::
  "buffer_from \<Rightarrow> nat \<Rightarrow> nat \<Rightarrow> entry \<Rightarrow> error + payload" where
  "dataFromDataWrittenEvent bf whb index e =
     (case strip_first whb index (data e) of
        Inl err \<Rightarrow> Inl err
      | Inr d \<Rightarrow> encode_data bf d (encoding e))"

subsection \<open>The response object\<close>

text \<open>
  A \<^verbatim>\<open>ReadableStream\<close> controller created by \<^verbatim>\<open>_toFetchResponse\<close>: the chunks enqueued so
  far (what a consumer reads, in order), whether \<^verbatim>\<open>close()\<close> was called, the variable
  \<^verbatim>\<open>finished\<close> captured by the two closures of \<^verbatim>\<open>start\<close>, and whether those closures
  were registered as listeners. Cancellation by the consumer is outside the model.
\<close>

record stream_ctl =
  queue :: "payload list"
  closed :: bool
  s_finished :: bool
  listening :: bool

text \<open>
  The \<^verbatim>\<open>Response\<close> handed to \<^verbatim>\<open>resolve\<close>. Its body is \<^verbatim>\<open>null\<close> (\<open>None\<close>) or a reference
  to a stream, the index of the stream in \<open>streams\<close>. Its headers are the list of the
  names and values appended, in the order of the calls.
\<close>

record fetch_response =
  status :: int
  statusText :: string
  headers :: "(string \<times> string) list"
  body :: "nat option"

text \<open>
  \<^verbatim>\<open>headers.append(header, value)\<close> as the Fetch standard specifies it: the value loses its
  leading and trailing HTTP whitespace (tab, line feed, carriage return, space); the call
  throws a TypeError unless the name is a non-empty token and the value has no NUL, line
  feed or carriage return.
\<close>

definition http_whitespace :: "char \<Rightarrow> bool" where
  "http_whitespace c =
     (let n = (of_char c :: nat) in n = 9 \<or> n = 10 \<or> n = 13 \<or> n = 32)"

definition normalize_value :: "string \<Rightarrow> string" where
  "normalize_value v = rev (dropWhile http_whitespace (rev (dropWhile http_whitespace v)))"

definition token_char :: "char \<Rightarrow> bool" where
  "token_char c =
     (let n = (of_char c :: nat)
      in (48 \<le> n \<and> n \<le> 57) \<or> (65 \<le> n \<and> n \<le> 90) \<or> (97 \<le> n \<and> n \<le> 122) \<or>
         n = 33 \<or> (35 \<le> n \<and> n \<le> 39) \<or> n = 42 \<or> n = 43 \<or> n = 45 \<or> n = 46 \<or>
         (94 \<le> n \<and> n \<le> 96) \<or> n = 124 \<or> n = 126)"

definition value_char_forbidden :: "char \<Rightarrow> bool" where
  "value_char_forbidden c =
     (let n = (of_char c :: nat) in n = 0 \<or> n = 10 \<or> n = 13)"

definition Headers_append ::
  "string \<Rightarrow> string \<Rightarrow> (string \<times> string) list \<Rightarrow> error + (string \<times> string) list" where
  "Headers_append name v hs =
     (if name = [] then Inl (TypeError ''header name'')
      else if list_ex (\<lambda>c. \<not> token_char c) name then Inl (TypeError ''header name'')
      else if list_ex value_char_forbidden (normalize_value v)
      then Inl (TypeError ''header value'')
      else Inr (hs @ [(name, normalize_value v)]))"

text \<open>The loop \<^verbatim>\<open>for (const [header, value] of sentHeaders) headers.append(header, value)\<close>.\<close>

fun append_all ::
  "(string \<times> string) list \<Rightarrow> (string \<times> string) list \<Rightarrow> error + (string \<times> string) list" where
  "append_all [] hs = Inr hs"
| "append_all ((k, v) # rest) hs =
     (case Headers_append k v hs of
        Inl err \<Rightarrow> Inl err
      | Inr hs' \<Rightarrow> append_all rest hs')"

text \<open>
  \<^verbatim>\<open>new Response(body, {status, statusText, headers})\<close> as the Fetch standard specifies it:
  the status is converted to an unsigned short (modulo 65536); a status outside
  200..599 throws a RangeError; a status text that is not a reason phrase (a character
  other than tab, space, visible ASCII and the bytes from 128, the characters
  \<^verbatim>\<open>headerCharRegex\<close> admits) throws a TypeError; a body that is not \<^verbatim>\<open>null\<close> with a null-body
  status (101, 103, 204, 205, 304) throws a TypeError.
\<close>

definition null_body_status :: "int \<Rightarrow> bool" where
  "null_body_status c = (c = 101 \<or> c = 103 \<or> c = 204 \<or> c = 205 \<or> c = 304)"

definition new_Response ::
  "nat option \<Rightarrow> int \<Rightarrow> string \<Rightarrow> (string \<times> string) list \<Rightarrow> error + fetch_response" where
  "new_Response b st stText hs =
     (let c = st mod 65536
      in if c < 200 \<or> c > 599 then Inl (RangeError ''status'')
         else if checkInvalidHeaderChar stText then Inl (TypeError ''statusText'')
         else if b \<noteq> None \<and> null_body_status c then Inl (TypeError ''body'')
         else Inr \<lparr>status = c, statusText = stText, headers = hs, body = b\<rparr>)"

text \<open>
  Modelled from the spec: the fields of the base class \<^verbatim>\<open>FetchOutgoingMessage\<close>
  (http-outgoing.ts is not among the sources) that http-server.ts reads or writes.
  \<^verbatim>\<open>_header\<close> is the rendered header block once headers are sent, \<^verbatim>\<open>kOutHeaders\<close> the
  header store (lower-cased name, display name, values), \<open>entryCount\<close> the number of
  entries written so far, which is the index of the next entry.
\<close>

record FetchOutgoingMessage =
  u_hasBody :: bool
  u_header :: "string option"
  writtenHeaderBytes :: nat
  sendDate :: bool
  useChunkedEncodingByDefault :: bool
  shouldKeepAlive :: bool
  kOutHeaders :: "(string \<times> string \<times> string list) list option"
  entryCount :: nat

text \<open>
  \<^verbatim>\<open>class FetchServerResponse extends FetchOutgoingMessage\<close>: its declared fields, then the
  variables of the promise executor in the constructor: \<^verbatim>\<open>finished\<close>,
  \<^verbatim>\<open>initialDataChunks\<close>, whether \<^verbatim>\<open>initialDataWrittenHandler\<close> is still subscribed, the
  state of the promise \<^verbatim>\<open>fetchResponse\<close> (\<open>None\<close> while pending; the executor takes no
  \<^verbatim>\<open>reject\<close>, so there is no rejected state), and the streams created so far.
\<close>

record FetchServerResponse = FetchOutgoingMessage +
  statusCode :: int
  statusMessage :: "string option"
  u_sent100 :: bool
  u_expect_continue :: bool
  finished :: bool
  initialDataChunks :: "payload list"
  initialHandlerOn :: bool
  fetchResponse :: "fetch_response option"
  streams :: "stream_ctl list"

datatype jsnum = NumUndefined | NumNull | Num int

text \<open>\<^verbatim>\<open>x < 1\<close> on a number that may be \<^verbatim>\<open>undefined\<close> (NaN, false) or \<^verbatim>\<open>null\<close> (0, true).\<close>

definition lt1 :: "jsnum \<Rightarrow> bool" where
  "lt1 x = (case x of Num n \<Rightarrow> n < 1 | NumNull \<Rightarrow> True | NumUndefined \<Rightarrow> False)"

text \<open>
  What the constructor reads of the incoming message: \<open>req_method\<close> is its field
  \<^verbatim>\<open>method\<close>, \<open>te_chunked\<close> is the result of
  \<^verbatim>\<open>chunkExpression.exec(String(req.headers.te)) !== null\<close> (the expression is declared in
  http-common.ts).
\<close>

record IncomingMessage =
  req_method :: "string option"
  httpVersionMajor :: jsnum
  httpVersionMinor :: jsnum
  te_chunked :: bool

text \<open>
  Modelled from the spec: the state \<^verbatim>\<open>super(req, options)\<close> leaves: headers mutable, a body
  expected, nothing written.
\<close>

definition new_FetchOutgoingMessage :: FetchOutgoingMessage where
  "new_FetchOutgoingMessage =
     \<lparr>u_hasBody = True, u_header = None, writtenHeaderBytes = 0, sendDate = False,
      useChunkedEncodingByDefault = True, shouldKeepAlive = True, kOutHeaders = None,
      entryCount = 0\<rparr>"

text \<open>
  The constructor of \<^verbatim>\<open>FetchServerResponse\<close>: \<^verbatim>\<open>super(req, options)\<close>, the field initializers
  (\<open>fields\<close> takes \<^verbatim>\<open>statusCode = 200\<close>, the unset \<^verbatim>\<open>statusMessage\<close>, the two flags and the
  five variables of the bridge, all assigned again below; \<^verbatim>\<open>kOutHeaders = null\<close>), the
  check for HEAD, the assignments, the branch on the HTTP version, and last the promise
  executor, which registers the listeners.
\<close>

definition new_FetchServerResponse :: "IncomingMessage \<Rightarrow> FetchServerResponse" where
  "new_FetchServerResponse req =
     (let this = FetchOutgoingMessage.extend new_FetchOutgoingMessage
            (FetchServerResponse.fields 200 None False False False [] True None []);
          this = this\<lparr>kOutHeaders := None\<rparr>;
          this = (if req_method req = Some ''HEAD'' then this\<lparr>u_hasBody := False\<rparr> else this);
          this = this\<lparr>sendDate := True, u_sent100 := False, u_expect_continue := False\<rparr>;
          this = (if lt1 (httpVersionMajor req) \<or> lt1 (httpVersionMinor req)
                  then this\<lparr>useChunkedEncodingByDefault := te_chunked req,
                            shouldKeepAlive := False\<rparr>
                  else this)
      in this\<lparr>finished := False, initialDataChunks := [], initialHandlerOn := True,
              fetchResponse := None, streams := []\<rparr>)"

subsection \<open>The response bridge: the listeners the class registers\<close>

text \<open>\<^verbatim>\<open>initialDataChunks[e.index] = v\<close>: an assignment past the end leaves holes.\<close>

definition array_set :: "payload list \<Rightarrow> nat \<Rightarrow> payload \<Rightarrow> payload list" where
  "array_set xs i v =
     (if i < length xs then xs[i := v]
      else xs @ replicate (i - length xs) Nullish @ [v])"

definition initialDataWrittenHandler ::
  "buffer_from \<Rightarrow> nat \<Rightarrow> entry \<Rightarrow> FetchServerResponse \<Rightarrow> error option \<times> FetchServerResponse" where
  "initialDataWrittenHandler bf index e this =
     (if finished this then (None, this)
      else (case dataFromDataWrittenEvent bf (writtenHeaderBytes this) index e of
              Inl err \<Rightarrow> (Some err, this)
            | Inr c \<Rightarrow>
                (None, this\<lparr>initialDataChunks := array_set (initialDataChunks this) index c\<rparr>)))"

text \<open>
  \<^verbatim>\<open>_toFetchResponse\<close>, in the order of the source: the headers are appended (a throw
  leaves the object as it is); when a body is expected the stream is constructed, and
  \<^verbatim>\<open>start\<close> runs inside its constructor: it enqueues the buffered chunks, then closes the
  stream or registers the two listeners; last the response is constructed, and a throw
  there leaves the stream and its listeners behind.
\<close>

definition u_toFetchResponse ::
  "int \<Rightarrow> string \<Rightarrow> (string \<times> string) list \<Rightarrow> payload list \<Rightarrow> bool \<Rightarrow> FetchServerResponse
     \<Rightarrow> (error + fetch_response) \<times> FetchServerResponse" where
  "u_toFetchResponse st stText sentHeaders chunks fin this =
     (case append_all sentHeaders [] of
        Inl err \<Rightarrow> (Inl err, this)
      | Inr hs \<Rightarrow>
          (if u_hasBody this then
             (let ctl = \<lparr>queue = chunks, closed = fin, s_finished = fin, listening = \<not> fin\<rparr>
              in (new_Response (Some (length (streams this))) st stText hs,
                  this\<lparr>streams := streams this @ [ctl]\<rparr>))
           else (new_Response None st stText hs, this)))"

text \<open>
  The listener of \<^verbatim>\<open>_headersSent\<close>: it unsubscribes the buffering listener, then calls
  \<^verbatim>\<open>resolve(this._toFetchResponse(...))\<close>. When \<^verbatim>\<open>_toFetchResponse\<close> throws, \<^verbatim>\<open>resolve\<close> is not
  reached, the promise stays as it was and the exception leaves the listener.
  \<^verbatim>\<open>resolve\<close> settles the promise the first time only.
\<close>

definition headersSentHandler ::
  "int \<Rightarrow> string \<Rightarrow> (string \<times> string) list \<Rightarrow> FetchServerResponse
     \<Rightarrow> error option \<times> FetchServerResponse" where
  "headersSentHandler st stMessage hs this =
     (let this1 = this\<lparr>initialHandlerOn := False\<rparr>
      in (case u_toFetchResponse st stMessage hs
                 (initialDataChunks this1) (finished this1) this1 of
            (Inl err, this2) \<Rightarrow> (Some err, this2)
          | (Inr r, this2) \<Rightarrow>
              (None, this2\<lparr>fetchResponse :=
                       (case fetchResponse this2 of None \<Rightarrow> Some r | Some r0 \<Rightarrow> Some r0)\<rparr>)))"

text \<open>
  The two listeners a stream registers. \<^verbatim>\<open>close()\<close> and \<^verbatim>\<open>enqueue()\<close> throw a TypeError
  on a controller that is already closed.
\<close>

definition stream_finish :: "stream_ctl \<Rightarrow> error option \<times> stream_ctl" where
  "stream_finish ctl =
     (let ctl1 = ctl\<lparr>s_finished := True\<rparr>
      in if closed ctl1 then (Some (TypeError ''close''), ctl1)
         else (None, ctl1\<lparr>closed := True\<rparr>))"

definition stream_dataWritten ::
  "buffer_from \<Rightarrow> nat \<Rightarrow> nat \<Rightarrow> entry \<Rightarrow> stream_ctl \<Rightarrow> error option \<times> stream_ctl" where
  "stream_dataWritten bf whb index e ctl =
     (if s_finished ctl then (None, ctl)
      else (case dataFromDataWrittenEvent bf whb index e of
              Inl err \<Rightarrow> (Some err, ctl)
            | Inr c \<Rightarrow>
                (if closed ctl then (Some (TypeError ''enqueue''), ctl)
                 else (None, ctl\<lparr>queue := queue ctl @ [c]\<rparr>))))"

text \<open>
  \<^verbatim>\<open>emit\<close> calls the listeners in the order of their registration and stops at the first
  one that throws. \<open>each_listener\<close> runs one kind of stream listener over the streams
  that registered it.
\<close>

fun each_listener ::
  "(stream_ctl \<Rightarrow> error option \<times> stream_ctl) \<Rightarrow> stream_ctl list
     \<Rightarrow> error option \<times> stream_ctl list" where
  "each_listener h [] = (None, [])"
| "each_listener h (c # cs) =
     (if listening c then
        (case h c of
           (Some err, c') \<Rightarrow> (Some err, c' # cs)
         | (None, c') \<Rightarrow> (case each_listener h cs of (r, cs') \<Rightarrow> (r, c' # cs')))
      else (case each_listener h cs of (r, cs') \<Rightarrow> (r, c # cs')))"

definition emit_finish :: "FetchServerResponse \<Rightarrow> error option \<times> FetchServerResponse" where
  "emit_finish this =
     (let this1 = this\<lparr>finished := True\<rparr>;
          (r, cs) = each_listener stream_finish (streams this1)
      in (r, this1\<lparr>streams := cs\<rparr>))"

definition emit_dataWritten ::
  "buffer_from \<Rightarrow> nat \<Rightarrow> entry \<Rightarrow> FetchServerResponse \<Rightarrow> error option \<times> FetchServerResponse" where
  "emit_dataWritten bf index e this =
     (case (if initialHandlerOn this then initialDataWrittenHandler bf index e this
            else (None, this)) of
        (Some err, this1) \<Rightarrow> (Some err, this1)
      | (None, this1) \<Rightarrow>
          (let (r, cs) = each_listener
                           (stream_dataWritten bf (writtenHeaderBytes this1) index e)
                           (streams this1)
           in (r, this1\<lparr>streams := cs\<rparr>)))"

definition emit_headersSent ::
  "int \<Rightarrow> string \<Rightarrow> (string \<times> string) list \<Rightarrow> FetchServerResponse
     \<Rightarrow> error option \<times> FetchServerResponse" where
  "emit_headersSent st stMessage hs this = headersSentHandler st stMessage hs this"

text \<open>
  What a consumer of the resolved response can read: the chunks of its body in order
  (none while the promise is pending or when the body is \<^verbatim>\<open>null\<close>).
\<close>

definition body_chunks :: "FetchServerResponse \<Rightarrow> payload list" where
  "body_chunks this =
     (case fetchResponse this of
        None \<Rightarrow> []
      | Some r \<Rightarrow>
          (case body r of
             None \<Rightarrow> []
           | Some i \<Rightarrow> if i < length (streams this) then queue (streams this ! i) else []))"

subsection \<open>Header arguments and the header store\<close>

text \<open>
  \<^verbatim>\<open>OutgoingHttpHeader = number | string | string[]\<close>; the arguments of \<^verbatim>\<open>writeHead\<close>:
  \<^verbatim>\<open>reason\<close> is a string or a header collection (or omitted), \<^verbatim>\<open>obj\<close> a header collection
  (or omitted). An object is the list of its entries in the order of \<^verbatim>\<open>Object.keys\<close>.
\<close>

datatype hval = HNum int | HString string | HList "string list"

datatype headers_arg = Undefined | Obj "(string \<times> hval) list" | Arr "hval list"

datatype reason_arg = Reason string | Hdrs headers_arg

fun join_comma :: "string list \<Rightarrow> string" where
  "join_comma [] = []"
| "join_comma [s] = s"
| "join_comma (s # t # ss) = s @ '','' @ join_comma (t # ss)"

text \<open>\<^verbatim>\<open>String(k)\<close> and the truthiness of \<^verbatim>\<open>k\<close>.\<close>

definition String_of :: "hval \<Rightarrow> string" where
  "String_of k = (case k of HNum n \<Rightarrow> string_of_int n | HString s \<Rightarrow> s | HList ss \<Rightarrow> join_comma ss)"

definition truthy :: "hval \<Rightarrow> bool" where
  "truthy k = (case k of HNum n \<Rightarrow> n \<noteq> 0 | HString s \<Rightarrow> s \<noteq> [] | HList ss \<Rightarrow> True)"

definition values_of :: "hval \<Rightarrow> string list" where
  "values_of v = (case v of HNum n \<Rightarrow> [string_of_int n] | HString s \<Rightarrow> [s] | HList ss \<Rightarrow> ss)"

text \<open>\<^verbatim>\<open>this._header\<close> as a condition: set and not the empty string.\<close>

definition header_sent :: "FetchServerResponse \<Rightarrow> bool" where
  "header_sent this = (case u_header this of None \<Rightarrow> False | Some h \<Rightarrow> h \<noteq> [])"

text \<open>
  \<^verbatim>\<open>toLowerCase\<close> on code units below 256, and the helpers of the header store modelled
  below: replacing and extending the entry of a key, and the test for a forbidden
  character in a name or one of its values.
\<close>

definition to_lower :: "char \<Rightarrow> char" where
  "to_lower c =
     (let n = (of_char c :: nat)
      in if (65 \<le> n \<and> n \<le> 90) \<or> (192 \<le> n \<and> n \<le> 222 \<and> n \<noteq> 215)
         then char_of (n + 32) else c)"

definition toLowerCase :: "string \<Rightarrow> string" where
  "toLowerCase s = map to_lower s"

fun store_set ::
  "string \<Rightarrow> string \<times> string list \<Rightarrow> (string \<times> string \<times> string list) list
     \<Rightarrow> (string \<times> string \<times> string list) list" where
  "store_set k v [] = [(k, v)]"
| "store_set k v ((k', v') # hs) =
     (if k' = k then (k, v) # hs else (k', v') # store_set k v hs)"

fun store_append ::
  "string \<Rightarrow> string \<times> string list \<Rightarrow> (string \<times> string \<times> string list) list
     \<Rightarrow> (string \<times> string \<times> string list) list" where
  "store_append k v [] = [(k, v)]"
| "store_append k v ((k', v') # hs) =
     (if k' = k then (k, (fst v', snd v' @ snd v)) # hs else (k', v') # store_append k v hs)"

definition store_of :: "FetchServerResponse \<Rightarrow> (string \<times> string \<times> string list) list" where
  "store_of this = (case kOutHeaders this of None \<Rightarrow> [] | Some hs \<Rightarrow> hs)"

definition invalid_header :: "string \<Rightarrow> string list \<Rightarrow> bool" where
  "invalid_header name vs = (checkInvalidHeaderChar name \<or> list_ex checkInvalidHeaderChar vs)"

text \<open>
  Modelled from the spec: \<^verbatim>\<open>setHeader\<close> of the base class (http-outgoing.ts), and with it
  the header store that the three header operations share. The store is an ordered mapping from the header name
  (case-insensitive identity, case-preserving display) to one or more values, with set
  (replace), append (add without removing) and remove; a mutation after the headers are
  sent fails with "headers already sent"; a name or value with a forbidden character
  fails with "invalid header character".
\<close>

definition setHeader ::
  "string \<Rightarrow> hval \<Rightarrow> FetchServerResponse \<Rightarrow> error option \<times> FetchServerResponse" where
  "setHeader name v this =
     (if header_sent this then (Some (ERR_HTTP_HEADERS_SENT ''set''), this)
      else if invalid_header name (values_of v) then (Some (ERR_INVALID_CHAR name), this)
      else (None, this\<lparr>kOutHeaders :=
              Some (store_set (toLowerCase name) (name, values_of v) (store_of this))\<rparr>))"

text \<open>
  Modelled from the spec: \<^verbatim>\<open>appendHeader\<close> of the base class (http-outgoing.ts): add values
  to a header without removing the ones it has.
\<close>

definition appendHeader ::
  "string \<Rightarrow> hval \<Rightarrow> FetchServerResponse \<Rightarrow> error option \<times> FetchServerResponse" where
  "appendHeader name v this =
     (if header_sent this then (Some (ERR_HTTP_HEADERS_SENT ''append''), this)
      else if invalid_header name (values_of v) then (Some (ERR_INVALID_CHAR name), this)
      else (None, this\<lparr>kOutHeaders :=
              Some (store_append (toLowerCase name) (name, values_of v) (store_of this))\<rparr>))"

text \<open>
  Modelled from the spec: \<^verbatim>\<open>removeHeader\<close> of the base class (http-outgoing.ts): remove a
  header by its case-insensitive name.
\<close>

definition removeHeader ::
  "string \<Rightarrow> FetchServerResponse \<Rightarrow> error option \<times> FetchServerResponse" where
  "removeHeader name this =
     (if header_sent this then (Some (ERR_HTTP_HEADERS_SENT ''remove''), this)
      else (None, this\<lparr>kOutHeaders :=
              map_option (filter (\<lambda>h. fst h \<noteq> toLowerCase name)) (kOutHeaders this)\<rparr>))"

definition the_default :: "'a \<Rightarrow> 'a option \<Rightarrow> 'a" where
  "the_default d x = (case x of None \<Rightarrow> d | Some y \<Rightarrow> y)"

text \<open>Sequencing of calls that can throw: the second runs only if the first returned.\<close>

definition and_then ::
  "error option \<times> 's \<Rightarrow> ('s \<Rightarrow> error option \<times> 's) \<Rightarrow> error option \<times> 's" where
  "and_then r f = (case r of (Some err, s) \<Rightarrow> (Some err, s) | (None, s) \<Rightarrow> f s)"

subsection \<open>Sending the headers\<close>

text \<open>The \<^verbatim>\<open>headers\<close> that \<^verbatim>\<open>writeHead\<close> passes on: the header store or its own argument.\<close>

datatype header_src =
    FromStore "(string \<times> string \<times> string list) list"
  | FromArg headers_arg

fun flat_pairs :: "hval list \<Rightarrow> (string \<times> string) list" where
  "flat_pairs (k # v # rest) = map (Pair (String_of k)) (values_of v) @ flat_pairs rest"
| "flat_pairs _ = []"

definition header_pairs :: "header_src \<Rightarrow> (string \<times> string) list" where
  "header_pairs src =
     (case src of
        FromStore hs \<Rightarrow> concat (map (\<lambda>(k, name, vs). map (Pair name) vs) hs)
      | FromArg Undefined \<Rightarrow> []
      | FromArg (Obj kvs) \<Rightarrow> concat (map (\<lambda>(k, v). map (Pair k) (values_of v)) kvs)
      | FromArg (Arr xs) \<Rightarrow> flat_pairs xs)"

definition header_block :: "string \<Rightarrow> (string \<times> string) list \<Rightarrow> string" where
  "header_block firstLine pairs =
     firstLine @ concat (map (\<lambda>(k, v). k @ '': '' @ v @ [CHR 0x0D, CHR 0x0A]) pairs)
       @ [CHR 0x0D, CHR 0x0A]"

text \<open>
  Modelled from the spec: \<^verbatim>\<open>_storeHeader\<close> of the base class (http-outgoing.ts), the
  transition from OPEN to SENT. It validates the header collection, renders the header
  block (status line, one line per name and value, an empty line) into \<^verbatim>\<open>_header\<close>, after
  which headers are immutable, and emits the header-sent event once, carrying the final
  status code, the final reason phrase and the ordered list of name and value pairs.
\<close>

definition u_storeHeader ::
  "string \<Rightarrow> header_src \<Rightarrow> FetchServerResponse \<Rightarrow> error option \<times> FetchServerResponse" where
  "u_storeHeader firstLine src this =
     (if (case src of FromArg (Arr xs) \<Rightarrow> length xs mod 2 \<noteq> 0 | _ \<Rightarrow> False)
      then (Some (ERR_INVALID_ARG_VALUE ''headers''), this)
      else if list_ex (\<lambda>(k, v). invalid_header k [v]) (header_pairs src)
      then (Some (ERR_INVALID_CHAR ''header content''), this)
      else emit_headersSent (statusCode this) (str_or (statusMessage this) [])
             (header_pairs src)
             (this\<lparr>u_header := Some (header_block firstLine (header_pairs src))\<rparr>))"

subsection \<open>writeHead\<close>

text \<open>The two loops over an array of headers and the loop over the keys of an object.\<close>

fun remove_loop :: "hval list \<Rightarrow> FetchServerResponse \<Rightarrow> error option \<times> FetchServerResponse" where
  "remove_loop (k # v # rest) this =
     and_then (removeHeader (String_of k) this) (remove_loop rest)"
| "remove_loop _ this = (None, this)"

fun append_loop :: "hval list \<Rightarrow> FetchServerResponse \<Rightarrow> error option \<times> FetchServerResponse" where
  "append_loop (k # v # rest) this =
     (if truthy k then and_then (appendHeader (String_of k) v this) (append_loop rest)
      else append_loop rest this)"
| "append_loop _ this = (None, this)"

fun set_loop ::
  "(string \<times> hval) list \<Rightarrow> FetchServerResponse \<Rightarrow> error option \<times> FetchServerResponse" where
  "set_loop [] this = (None, this)"
| "set_loop ((k, v) # rest) this =
     (if k \<noteq> [] then and_then (setHeader k v this) (set_loop rest)
      else set_loop rest this)"

text \<open>
  The block \<^verbatim>\<open>if (this[kOutHeaders]) { ... } else { headers = obj; }\<close>: the slow case
  merges \<^verbatim>\<open>obj\<close> into the header store.
\<close>

definition merge_headers ::
  "headers_arg \<Rightarrow> FetchServerResponse \<Rightarrow> error option \<times> FetchServerResponse" where
  "merge_headers obj this =
     (case obj of
        Arr xs \<Rightarrow>
          (if length xs mod 2 \<noteq> 0 then (Some (ERR_INVALID_ARG_VALUE ''headers''), this)
           else and_then (remove_loop xs this) (append_loop xs))
      | Obj kvs \<Rightarrow> set_loop kvs this
      | Undefined \<Rightarrow> (None, this))"

definition chosen_headers :: "headers_arg \<Rightarrow> FetchServerResponse \<Rightarrow> header_src" where
  "chosen_headers obj this =
     (case kOutHeaders this of Some hs \<Rightarrow> FromStore hs | None \<Rightarrow> FromArg obj)"

definition no_body_status :: "int \<Rightarrow> bool" where
  "no_body_status c = (c = 204 \<or> c = 304 \<or> (c \<ge> 100 \<and> c \<le> 199))"

definition statusLine :: "int \<Rightarrow> string \<Rightarrow> string" where
  "statusLine c msg =
     ''HTTP/1.1 '' @ string_of_int c @ '' '' @ msg @ [CHR 0x0D, CHR 0x0A]"

text \<open>
  The two assignments between the status line and the call of \<^verbatim>\<open>_storeHeader\<close>:
  \<^verbatim>\<open>_hasBody = false\<close> for 204, 304 and 1xx, and \<^verbatim>\<open>shouldKeepAlive = false\<close> when a
  100-continue was expected and not sent.
\<close>

definition status_flags :: "int \<Rightarrow> FetchServerResponse \<Rightarrow> FetchServerResponse" where
  "status_flags c this =
     (let this1 = (if no_body_status c then this\<lparr>u_hasBody := False\<rparr> else this)
      in if u_expect_continue this1 \<and> \<not> u_sent100 this1
         then this1\<lparr>shouldKeepAlive := False\<rparr> else this1)"

text \<open>The part of \<^verbatim>\<open>writeHead\<close> after the headers are chosen.\<close>

definition writeHead_send ::
  "int \<Rightarrow> headers_arg \<Rightarrow> FetchServerResponse \<Rightarrow> error option \<times> FetchServerResponse" where
  "writeHead_send c obj this =
     (if checkInvalidHeaderChar (str_or (statusMessage this) [])
      then (Some (ERR_INVALID_CHAR ''statusMessage''), this)
      else
        (let line = statusLine c (str_or (statusMessage this) []);
             this2 = status_flags c this
         in u_storeHeader line (chosen_headers obj this2) this2))"

definition writeHead ::
  "int \<Rightarrow> reason_arg \<Rightarrow> headers_arg \<Rightarrow> FetchServerResponse
     \<Rightarrow> error option \<times> FetchServerResponse" where
  "writeHead statusCode0 reason obj0 this =
     (if header_sent this then (Some (ERR_HTTP_HEADERS_SENT ''write''), this)
      else
        (let c = toInt32 statusCode0
         in if c < 100 \<or> c > 999 then (Some (ERR_HTTP_INVALID_STATUS_CODE statusCode0), this)
            else
              (let this1 =
                     (case reason of
                        Reason r \<Rightarrow> this\<lparr>statusMessage := Some r\<rparr>
                      | Hdrs h \<Rightarrow>
                          this\<lparr>statusMessage :=
                            Some (str_or (statusMessage this)
                                    (str_or (STATUS_CODES c) ''unknown''))\<rparr>);
                   obj =
                     (case reason of
                        Reason r \<Rightarrow> obj0
                      | Hdrs h \<Rightarrow> if obj0 = Undefined then h else obj0);
                   this2 = this1\<lparr>statusCode := c\<rparr>
               in and_then
                    (if kOutHeaders this2 \<noteq> None then merge_headers obj this2
                     else (None, this2))
                    (writeHead_send c obj))))"

definition u_implicitHeader ::
  "FetchServerResponse \<Rightarrow> error option \<times> FetchServerResponse" where
  "u_implicitHeader this = writeHead (statusCode this) (Hdrs Undefined) Undefined this"

subsection \<open>Body writes and the end of the message\<close>

text \<open>
  The header block in front of the payload of the first entry, as the write modelled
  below puts it; in front of binary data it is the bytes of its code units.
\<close>

definition prepend_header :: "string \<Rightarrow> payload \<Rightarrow> payload" where
  "prepend_header h d =
     (case d of
        Str s \<Rightarrow> Str (h @ s)
      | Bin bs \<Rightarrow> Bin (map (\<lambda>c. of_nat (of_char c)) h @ bs)
      | _ \<Rightarrow> d)"

text \<open>
  Modelled from the spec: the body write of the base class (http-outgoing.ts). On the
  first write, if the headers were not sent explicitly, they are sent implicitly
  (through \<^verbatim>\<open>_implicitHeader\<close>, which is in http-server.ts), the header block is prepended
  to the payload of the entry, and its length is recorded in \<^verbatim>\<open>writtenHeaderBytes\<close>. Each
  write takes the next index and emits one data-written event with the index and the
  entry. The method is \<^verbatim>\<open>write\<close> in the source.
\<close>

definition write_chunk ::
  "buffer_from \<Rightarrow> payload \<Rightarrow> enc \<Rightarrow> FetchServerResponse
     \<Rightarrow> error option \<times> FetchServerResponse" where
  "write_chunk bf chunk en this =
     and_then
       (if header_sent this then (None, this)
        else and_then (u_implicitHeader this)
               (\<lambda>t. (None, t\<lparr>writtenHeaderBytes := length (the_default [] (u_header t))\<rparr>)))
       (\<lambda>t. emit_dataWritten bf (entryCount t)
               (Entry (if header_sent this then chunk
                       else prepend_header (the_default [] (u_header t)) chunk) en)
               (t\<lparr>entryCount := entryCount t + 1\<rparr>))"

text \<open>
  Modelled from the spec: the end-of-output operation of the base class
  (http-outgoing.ts), \<^verbatim>\<open>end\<close> in the source, called without a final chunk. Headers that
  were not sent yet are sent implicitly; then the finish signal fires.
\<close>

definition end_message :: "FetchServerResponse \<Rightarrow> error option \<times> FetchServerResponse" where
  "end_message this =
     and_then (if header_sent this then (None, this) else u_implicitHeader this) emit_finish"

subsection \<open>toReqRes\<close>

text \<open>
  \<^verbatim>\<open>toReqRes\<close> with the default \<^verbatim>\<open>createServerResponse\<close>. \<open>incoming\<close> is the object that
  \<^verbatim>\<open>createIncomingMessage(ctx)\<close> returns (by default \<^verbatim>\<open>new FetchIncomingMessage()\<close>, a class
  of http-incoming.ts), \<open>fetch_method\<close> is \<^verbatim>\<open>req.method\<close> of the fetch request. The response
  object is constructed from \<open>incoming\<close> before \<^verbatim>\<open>toReqRes\<close> assigns the version and the
  method. The url, the header lines and the body stream that \<^verbatim>\<open>toReqRes\<close> also assigns
  are not read by the response object and are left out.
\<close>

definition toReqRes ::
  "IncomingMessage \<Rightarrow> string \<Rightarrow> IncomingMessage \<times> FetchServerResponse" where
  "toReqRes incoming fetch_method =
     (let serverResponse = new_FetchServerResponse incoming;
          incoming1 = incoming\<lparr>httpVersionMajor := Num 1, httpVersionMinor := Num 1\<rparr>;
          incoming2 = incoming1\<lparr>req_method := Some fetch_method\<rparr>
      in (incoming2, serverResponse))"

text \<open>
  An incoming message as \<^verbatim>\<open>toReqRes\<close> leaves it for a GET request: the request used in
  the examples below.
\<close>

definition get_request :: IncomingMessage where
  "get_request =
     \<lparr>req_method = Some ''GET'', httpVersionMajor = Num 1, httpVersionMinor = Num 1,
      te_chunked = False\<rparr>"

subsection \<open>Auxiliary notions for the properties\<close>

text \<open>
  The status message \<^verbatim>\<open>writeHead\<close> settles on: the reason phrase when one is passed,
  otherwise \<^verbatim>\<open>this.statusMessage ||= STATUS_CODES[statusCode] || "unknown"\<close>.
\<close>

definition reason_message :: "int \<Rightarrow> reason_arg \<Rightarrow> FetchServerResponse \<Rightarrow> string" where
  "reason_message c reason this =
     (case reason of
        Reason r \<Rightarrow> r
      | Hdrs h \<Rightarrow> str_or (statusMessage this) (str_or (STATUS_CODES c) ''unknown''))"


text \<open>
  Everything that can happen to a response object, as one alphabet: the three events the
  bridge listens to, emitted by whoever drives the object, and the calls of the methods
  above. \<open>run\<close> performs a sequence of them; a caller may catch an exception and go on,
  so the sequence continues after an action that throws.
\<close>

datatype action =
    Finish
  | DataWritten nat entry
  | HeadersSent int string "(string \<times> string) list"
  | WriteHead int reason_arg headers_arg
  | Write payload enc
  | End
  | SetHeader string hval
  | AppendHeader string hval
  | RemoveHeader string

definition step ::
  "buffer_from \<Rightarrow> action \<Rightarrow> FetchServerResponse \<Rightarrow> error option \<times> FetchServerResponse" where
  "step bf a this =
     (case a of
        Finish \<Rightarrow> emit_finish this
      | DataWritten i e \<Rightarrow> emit_dataWritten bf i e this
      | HeadersSent st msg hs \<Rightarrow> emit_headersSent st msg hs this
      | WriteHead c reason obj \<Rightarrow> writeHead c reason obj this
      | Write d en \<Rightarrow> write_chunk bf d en this
      | End \<Rightarrow> end_message this
      | SetHeader n v \<Rightarrow> setHeader n v this
      | AppendHeader n v \<Rightarrow> appendHeader n v this
      | RemoveHeader n \<Rightarrow> removeHeader n this)"

definition run :: "buffer_from \<Rightarrow> action list \<Rightarrow> FetchServerResponse \<Rightarrow> FetchServerResponse" where
  "run bf acts this = foldl (\<lambda>s a. snd (step bf a s)) this acts"

text \<open>
  The relation between the flag \<^verbatim>\<open>finished\<close> of the constructor and the streams: after the
  finish signal every stream that listens has its own \<^verbatim>\<open>finished\<close> set; before it no
  stream is closed.
\<close>

definition finish_inv :: "FetchServerResponse \<Rightarrow> bool" where
  "finish_inv this =
     (if finished this
      then list_all (\<lambda>c. listening c \<longrightarrow> s_finished c) (streams this)
      else list_all (\<lambda>c. \<not> closed c) (streams this))"

text \<open>
  What the listener of \<^verbatim>\<open>_headersSent\<close> gets from \<^verbatim>\<open>_toFetchResponse\<close> on an object: the
  response, or the exception of \<^verbatim>\<open>headers.append\<close> or of \<^verbatim>\<open>new Response\<close>.
\<close>

definition response_for ::
  "int \<Rightarrow> string \<Rightarrow> (string \<times> string) list \<Rightarrow> FetchServerResponse \<Rightarrow> error + fetch_response" where
  "response_for st msg hs this =
     (case append_all hs [] of
        Inl err \<Rightarrow> Inl err
      | Inr hs' \<Rightarrow>
          new_Response (if u_hasBody this then Some (length (streams this)) else None)
            st msg hs')"

text \<open>
  The object on which \<^verbatim>\<open>_storeHeader\<close> emits the header-sent event inside \<^verbatim>\<open>writeHead\<close>:
  status message and code assigned, header store \<open>k\<close>, the two flags applied, and the
  header block of the status line and the pairs in \<^verbatim>\<open>_header\<close>.
\<close>

definition header_state ::
  "int \<Rightarrow> string \<Rightarrow> (string \<times> string \<times> string list) list option \<Rightarrow> (string \<times> string) list
     \<Rightarrow> FetchServerResponse \<Rightarrow> FetchServerResponse" where
  "header_state c m k pairs this =
     (status_flags c (this\<lparr>statusMessage := Some m, statusCode := c, kOutHeaders := k\<rparr>))
       \<lparr>u_header := Some (header_block (statusLine c m) pairs)\<rparr>"

text \<open>Two objects agree on the variables of the bridge.\<close>

definition same_bridge :: "FetchServerResponse \<Rightarrow> FetchServerResponse \<Rightarrow> bool" where
  "same_bridge t this =
     (finished t = finished this \<and> streams t = streams this \<and>
      fetchResponse t = fetchResponse this \<and> initialDataChunks t = initialDataChunks this \<and>
      initialHandlerOn t = initialHandlerOn this)"


text \<open>
  The array \<^verbatim>\<open>initialDataChunks\<close> after a series of assignments
  \<^verbatim>\<open>initialDataChunks[i] = c\<close>, and the data-written events for a series of indexed
  entries.
\<close>

definition fill :: "payload list \<Rightarrow> (nat \<times> payload) list \<Rightarrow> payload list" where
  "fill xs ics = foldl (\<lambda>ys ic. array_set ys (fst ic) (snd ic)) xs ics"

definition data_events :: "(nat \<times> entry) list \<Rightarrow> action list" where
  "data_events ies = map (\<lambda>ie. DataWritten (fst ie) (snd ie)) ies"

text \<open>
  The chunk a body write contributes when its entry materializes, none when the
  materialization throws.
\<close>

definition chunk_of :: "buffer_from \<Rightarrow> payload \<times> enc \<Rightarrow> payload list" where
  "chunk_of bf w = (case encode_data bf (fst w) (snd w) of Inr c \<Rightarrow> [c] | Inl err \<Rightarrow> [])"

text \<open>
  A stand-in for \<^verbatim>\<open>Buffer.from\<close> in closed examples: it reads every encoding name as
  latin1, one byte per code unit.
\<close>

definition latin1_from :: buffer_from where
  "latin1_from s n = Inr (map (\<lambda>c. of_nat (of_char c)) s)"

text \<open>A series of body writes, each a payload with its encoding.\<close>

definition write_actions :: "(payload \<times> enc) list \<Rightarrow> action list" where
  "write_actions ws = map (\<lambda>w. Write (fst w) (snd w)) ws"

section \<open>Properties\<close>

subsection \<open>Basic facts\<close>

lemma and_then_simps [simp]:
  "and_then (None, s) f = f s"
  "and_then (Some err, s) f = (Some err, s)"
  by (simp_all add: and_then_def)

lemmas ctor_defs = new_FetchServerResponse_def new_FetchOutgoingMessage_def lt1_def
  FetchOutgoingMessage.extend_def FetchServerResponse.fields_def get_request_def

lemma toInt32_id: "- (2 ^ 31) \<le> n \<Longrightarrow> n < 2 ^ 31 \<Longrightarrow> toInt32 n = n"
  by (simp add: toInt32_def)

lemma new_not_header_sent [simp]: "\<not> header_sent (new_FetchServerResponse req)"
  by (simp add: header_sent_def ctor_defs Let_def)

subsection \<open>Status-code validation\<close>

text \<open>
  C4 (as amended). \<^verbatim>\<open>writeHead\<close> validates \<^verbatim>\<open>statusCode | 0\<close>, and only after the check for
  headers already sent. On a message whose headers are not sent, every integer argument
  whose 32-bit truncation is outside 100..999 makes \<^verbatim>\<open>writeHead\<close> throw
  \<^verbatim>\<open>ERR_HTTP_INVALID_STATUS_CODE\<close> with the original argument, and the object is left
  exactly as it was: status code, status message, stored headers and header state.
\<close>

theorem writeHead_invalid_status:
  assumes "\<not> header_sent this" and "toInt32 c < 100 \<or> toInt32 c > 999"
  shows "writeHead c reason obj this = (Some (ERR_HTTP_INVALID_STATUS_CODE c), this)"
  using assms by (auto simp add: writeHead_def Let_def)

theorem writeHead_invalid_status_witness:
  "\<not> header_sent (new_FetchServerResponse get_request) \<and>
   (toInt32 999999 < 100 \<or> toInt32 999999 > 999) \<and>
   writeHead 999999 (Hdrs Undefined) Undefined (new_FetchServerResponse get_request)
     = (Some (ERR_HTTP_INVALID_STATUS_CODE 999999), new_FetchServerResponse get_request)"
proof -
  have h1: "\<not> header_sent (new_FetchServerResponse get_request)"
    by simp
  have h2: "toInt32 999999 < 100 \<or> toInt32 999999 > 999"
    by (simp add: toInt32_def)
  show ?thesis
    using h1 h2 writeHead_invalid_status [OF h1 h2] by simp
qed

text \<open>
  C4 as stated fails: 4294967496 is outside 100..999, but \<^verbatim>\<open>4294967496 | 0\<close> is 200, so
  \<^verbatim>\<open>writeHead(4294967496)\<close> returns normally and sends the headers with status 200.
\<close>

theorem writeHead_wraps_counterexample:
  "\<not> (100 \<le> (4294967496::int) \<and> (4294967496::int) \<le> 999) \<and>
   fst (writeHead 4294967496 (Hdrs Undefined) Undefined
          (new_FetchServerResponse get_request)) = None \<and>
   statusCode (snd (writeHead 4294967496 (Hdrs Undefined) Undefined
          (new_FetchServerResponse get_request))) = 200 \<and>
   header_sent (snd (writeHead 4294967496 (Hdrs Undefined) Undefined
          (new_FetchServerResponse get_request)))"
  by (simp add: writeHead_def header_sent_def ctor_defs toInt32_def Let_def STATUS_CODES_def
      str_or_def writeHead_send_def checkInvalidHeaderChar_def headerChar_ok_def
      no_body_status_def status_flags_def u_storeHeader_def chosen_headers_def header_pairs_def
      emit_headersSent_def headersSentHandler_def u_toFetchResponse_def header_block_def
      new_Response_def null_body_status_def)

subsection \<open>The header store and the shape of a successful writeHead\<close>

text \<open>Definitions unfolded when a call is evaluated on a concrete object.\<close>

lemmas eval_defs = writeHead_def header_sent_def ctor_defs toInt32_def Let_def STATUS_CODES_def
      str_or_def writeHead_send_def checkInvalidHeaderChar_def headerChar_ok_def
      no_body_status_def status_flags_def u_storeHeader_def chosen_headers_def header_pairs_def
      emit_headersSent_def headersSentHandler_def u_toFetchResponse_def header_block_def
      invalid_header_def values_of_def new_Response_def null_body_status_def Headers_append_def
      normalize_value_def http_whitespace_def token_char_def value_char_forbidden_def

text \<open>The header operations change nothing but the header store.\<close>

lemma STATUS_CODES_nonempty: "STATUS_CODES c = Some m \<Longrightarrow> m \<noteq> []"
  by (auto simp add: STATUS_CODES_def split: if_splits)

lemma default_reason: "str_or (STATUS_CODES c) ''unknown'' = (case STATUS_CODES c of Some m \<Rightarrow> m | None \<Rightarrow> ''unknown'')"
  by (auto simp add: str_or_def split: option.splits dest: STATUS_CODES_nonempty)

lemma setHeader_only_store: "\<exists>k. snd (setHeader n v this) = this\<lparr>kOutHeaders := k\<rparr>"
proof (cases "header_sent this \<or> invalid_header n (values_of v)")
  case True
  then have "snd (setHeader n v this) = this\<lparr>kOutHeaders := kOutHeaders this\<rparr>"
    by (auto simp add: setHeader_def)
  then show ?thesis by blast
next
  case False
  then show ?thesis by (auto simp add: setHeader_def)
qed

lemma appendHeader_only_store: "\<exists>k. snd (appendHeader n v this) = this\<lparr>kOutHeaders := k\<rparr>"
proof (cases "header_sent this \<or> invalid_header n (values_of v)")
  case True
  then have "snd (appendHeader n v this) = this\<lparr>kOutHeaders := kOutHeaders this\<rparr>"
    by (auto simp add: appendHeader_def)
  then show ?thesis by blast
next
  case False
  then show ?thesis by (auto simp add: appendHeader_def)
qed

lemma removeHeader_only_store: "\<exists>k. snd (removeHeader n this) = this\<lparr>kOutHeaders := k\<rparr>"
proof (cases "header_sent this")
  case True
  then have "snd (removeHeader n this) = this\<lparr>kOutHeaders := kOutHeaders this\<rparr>"
    by (auto simp add: removeHeader_def)
  then show ?thesis by blast
next
  case False
  then show ?thesis by (auto simp add: removeHeader_def)
qed

lemma and_then_only_store:
  assumes "\<exists>k. snd r = this\<lparr>kOutHeaders := k\<rparr>"
    and "\<And>t. \<exists>k. snd (f t) = t\<lparr>kOutHeaders := k\<rparr>"
  shows "\<exists>k. snd (and_then r f) = this\<lparr>kOutHeaders := k\<rparr>"
proof (cases r)
  case (Pair e s)
  from assms(1) Pair obtain k where s: "s = this\<lparr>kOutHeaders := k\<rparr>" by auto
  show ?thesis
  proof (cases e)
    case None
    from assms(2) obtain k' where "snd (f s) = s\<lparr>kOutHeaders := k'\<rparr>" by blast
    with s None Pair show ?thesis by auto
  next
    case (Some err)
    with s Pair show ?thesis by auto
  qed
qed

lemma id_only_store: "\<exists>k. this = this\<lparr>kOutHeaders := k\<rparr>"
  by (rule exI [of _ "kOutHeaders this"]) simp

lemma remove_loop_only_store: "\<exists>k. snd (remove_loop xs this) = this\<lparr>kOutHeaders := k\<rparr>"
proof (induction xs this rule: remove_loop.induct)
  case (1 k v rest this)
  show ?case
    unfolding remove_loop.simps
    by (rule and_then_only_store) (rule removeHeader_only_store, rule "1.IH")
qed (simp_all add: id_only_store)

lemma append_loop_only_store: "\<exists>k. snd (append_loop xs this) = this\<lparr>kOutHeaders := k\<rparr>"
proof (induction xs this rule: append_loop.induct)
  case (1 k v rest this)
  show ?case
  proof (cases "truthy k")
    case True
    show ?thesis
      unfolding append_loop.simps using True
      by (simp, intro and_then_only_store appendHeader_only_store "1.IH"(1) True)
  next
    case False
    then show ?thesis using "1.IH"(2) by simp
  qed
qed (simp_all add: id_only_store)

lemma set_loop_only_store: "\<exists>k. snd (set_loop kvs this) = this\<lparr>kOutHeaders := k\<rparr>"
proof (induction kvs this rule: set_loop.induct)
  case (1 this)
  show ?case by (simp add: id_only_store)
next
  case (2 k v rest this)
  show ?case
  proof (cases "k \<noteq> []")
    case True
    show ?thesis
      unfolding set_loop.simps using True
      by (simp, intro and_then_only_store setHeader_only_store "2.IH"(1) True)
  next
    case False
    then show ?thesis using "2.IH"(2) by simp
  qed
qed

lemma merge_headers_only_store: "\<exists>k. snd (merge_headers obj this) = this\<lparr>kOutHeaders := k\<rparr>"
proof (cases obj)
  case Undefined
  then show ?thesis by (simp add: merge_headers_def id_only_store)
next
  case (Obj kvs)
  then show ?thesis by (simp add: merge_headers_def set_loop_only_store)
next
  case (Arr xs)
  show ?thesis
  proof (cases "length xs mod 2 \<noteq> 0")
    case True
    with Arr show ?thesis by (simp add: merge_headers_def id_only_store)
  next
    case False
    with Arr show ?thesis
      by (simp add: merge_headers_def)
         (intro and_then_only_store remove_loop_only_store append_loop_only_store)
  qed
qed

lemma headersSentHandler_fst:
  "fst (headersSentHandler st msg hs this) =
     (case response_for st msg hs this of Inl err \<Rightarrow> Some err | Inr r \<Rightarrow> None)"
  by (simp add: headersSentHandler_def u_toFetchResponse_def response_for_def Let_def
        split: sum.splits)

lemma headersSentHandler_snd:
  "snd (headersSentHandler st msg hs this) =
     this\<lparr>initialHandlerOn := False,
          streams := (if u_hasBody this \<and> \<not> isl (append_all hs [])
                      then streams this @ [\<lparr>queue = initialDataChunks this, closed = finished this,
                             s_finished = finished this, listening = \<not> finished this\<rparr>]
                      else streams this),
          fetchResponse := (case fetchResponse this of
                              Some r0 \<Rightarrow> Some r0
                            | None \<Rightarrow> (case response_for st msg hs this of
                                         Inr r \<Rightarrow> Some r | Inl err \<Rightarrow> None))\<rparr>"
  by (simp add: headersSentHandler_def u_toFetchResponse_def response_for_def Let_def
        split: sum.splits option.splits)

lemma headersSentHandler_ok:
  assumes "fst (headersSentHandler st msg hs this) = None"
  shows "\<exists>r. response_for st msg hs this = Inr r \<and>
             snd (headersSentHandler st msg hs this) =
               this\<lparr>initialHandlerOn := False,
                    streams := (if u_hasBody this
                      then streams this @ [\<lparr>queue = initialDataChunks this, closed = finished this,
                             s_finished = finished this, listening = \<not> finished this\<rparr>]
                      else streams this),
                    fetchResponse := (case fetchResponse this of
                                        Some r0 \<Rightarrow> Some r0 | None \<Rightarrow> Some r)\<rparr>"
proof -
  from assms obtain r where r: "response_for st msg hs this = Inr r"
    by (auto simp add: headersSentHandler_fst split: sum.splits)
  then have "\<not> isl (append_all hs [])"
    by (auto simp add: response_for_def split: sum.splits)
  with r show ?thesis
    by (simp add: headersSentHandler_snd split: option.splits)
qed

lemma response_for_fields:
  assumes "response_for st msg hs this = Inr r"
  shows "status r = st mod 65536" and "statusText r = msg"
    and "body r = (if u_hasBody this then Some (length (streams this)) else None)"
    and "200 \<le> st mod 65536" and "st mod 65536 \<le> 599"
    and "u_hasBody this \<Longrightarrow> \<not> null_body_status (st mod 65536)"
  using assms
  by (auto simp add: response_for_def new_Response_def Let_def split: sum.splits if_splits)

lemma status_flags_fields [simp]:
  "statusMessage (status_flags c t) = statusMessage t"
  "statusCode (status_flags c t) = statusCode t"
  "kOutHeaders (status_flags c t) = kOutHeaders t"
  "u_header (status_flags c t) = u_header t"
  "fetchResponse (status_flags c t) = fetchResponse t"
  "streams (status_flags c t) = streams t"
  "finished (status_flags c t) = finished t"
  "initialDataChunks (status_flags c t) = initialDataChunks t"
  "initialHandlerOn (status_flags c t) = initialHandlerOn t"
  "writtenHeaderBytes (status_flags c t) = writtenHeaderBytes t"
  "entryCount (status_flags c t) = entryCount t"
  "u_hasBody (status_flags c t) = (u_hasBody t \<and> \<not> no_body_status c)"
  by (simp_all add: status_flags_def Let_def)

lemma u_storeHeader_cases:
  "u_storeHeader line src t = (Some (ERR_INVALID_ARG_VALUE ''headers''), t) \<or>
   u_storeHeader line src t = (Some (ERR_INVALID_CHAR ''header content''), t) \<or>
   u_storeHeader line src t =
     headersSentHandler (statusCode t) (str_or (statusMessage t) []) (header_pairs src)
       (t\<lparr>u_header := Some (header_block line (header_pairs src))\<rparr>)"
  by (simp add: u_storeHeader_def emit_headersSent_def)

lemma writeHead_send_cases:
  "(\<exists>err. writeHead_send c obj t = (Some err, t)) \<or>
   (\<exists>err. writeHead_send c obj t = (Some err, status_flags c t)) \<or>
   (\<exists>pairs. writeHead_send c obj t =
     headersSentHandler (statusCode t) (str_or (statusMessage t) []) pairs
       ((status_flags c t)\<lparr>u_header :=
           Some (header_block (statusLine c (str_or (statusMessage t) [])) pairs)\<rparr>))"
proof (cases "checkInvalidHeaderChar (str_or (statusMessage t) [])")
  case True
  then show ?thesis by (simp add: writeHead_send_def)
next
  case False
  let ?line = "statusLine c (str_or (statusMessage t) [])"
  let ?src = "chosen_headers obj (status_flags c t)"
  have eq: "writeHead_send c obj t = u_storeHeader ?line ?src (status_flags c t)"
    using False by (simp add: writeHead_send_def Let_def)
  from u_storeHeader_cases [of ?line ?src "status_flags c t"]
  show ?thesis unfolding eq by auto
qed

lemma writeHead_unfold:
  assumes "\<not> header_sent this" "100 \<le> toInt32 c" "toInt32 c \<le> 999"
  shows "\<exists>obj'. writeHead c reason obj this =
           and_then (if kOutHeaders this \<noteq> None
                     then merge_headers obj' (this\<lparr>statusMessage := Some (reason_message (toInt32 c) reason this), statusCode := toInt32 c\<rparr>)
                     else (None, this\<lparr>statusMessage := Some (reason_message (toInt32 c) reason this), statusCode := toInt32 c\<rparr>))
                    (writeHead_send (toInt32 c) obj')"
  using assms
  by (cases reason) (auto simp add: writeHead_def Let_def reason_message_def)

lemma writeHead_mid:
  assumes "\<not> header_sent this" "100 \<le> toInt32 c" "toInt32 c \<le> 999"
  shows "\<exists>obj' k e. writeHead c reason obj this =
           and_then (e, this\<lparr>statusMessage := Some (reason_message (toInt32 c) reason this),
                             statusCode := toInt32 c, kOutHeaders := k\<rparr>)
                    (writeHead_send (toInt32 c) obj')"
proof -
  let ?t = "this\<lparr>statusMessage := Some (reason_message (toInt32 c) reason this), statusCode := toInt32 c\<rparr>"
  from writeHead_unfold [OF assms, of reason obj] obtain obj' where
    eq: "writeHead c reason obj this =
           and_then (if kOutHeaders this \<noteq> None then merge_headers obj' ?t else (None, ?t))
                    (writeHead_send (toInt32 c) obj')" by blast
  show ?thesis
  proof (cases "kOutHeaders this \<noteq> None")
    case True
    from merge_headers_only_store [of obj' ?t] obtain k where
      "snd (merge_headers obj' ?t) = ?t\<lparr>kOutHeaders := k\<rparr>" by blast
    then have m: "merge_headers obj' ?t = (fst (merge_headers obj' ?t), ?t\<lparr>kOutHeaders := k\<rparr>)"
      by (metis prod.collapse)
    have "writeHead c reason obj this =
            and_then (fst (merge_headers obj' ?t), ?t\<lparr>kOutHeaders := k\<rparr>)
              (writeHead_send (toInt32 c) obj')"
      using eq True m by simp
    then show ?thesis by (intro exI)
  next
    case False
    have id: "?t\<lparr>kOutHeaders := kOutHeaders this\<rparr> = ?t"
      by simp
    have "writeHead c reason obj this =
            and_then (None, ?t\<lparr>kOutHeaders := kOutHeaders this\<rparr>)
              (writeHead_send (toInt32 c) obj')"
      unfolding id using eq False by simp
    then show ?thesis by (intro exI)
  qed
qed

lemma writeHead_guards:
  assumes "fst (writeHead c reason obj this) = None"
  shows "\<not> header_sent this \<and> 100 \<le> toInt32 c \<and> toInt32 c \<le> 999"
proof -
  have "header_sent this \<Longrightarrow> fst (writeHead c reason obj this) \<noteq> None"
    by (simp add: writeHead_def)
  moreover have "\<not> header_sent this \<Longrightarrow> toInt32 c < 100 \<or> toInt32 c > 999
                   \<Longrightarrow> fst (writeHead c reason obj this) \<noteq> None"
    by (auto simp add: writeHead_def Let_def)
  ultimately show ?thesis using assms by fastforce
qed

lemma header_block_nonempty [simp]: "header_block line pairs \<noteq> []"
  by (simp add: header_block_def)

lemma header_state_fields [simp]:
  "statusMessage (header_state c m k pairs t) = Some m"
  "statusCode (header_state c m k pairs t) = c"
  "kOutHeaders (header_state c m k pairs t) = k"
  "u_header (header_state c m k pairs t) = Some (header_block (statusLine c m) pairs)"
  "fetchResponse (header_state c m k pairs t) = fetchResponse t"
  "streams (header_state c m k pairs t) = streams t"
  "finished (header_state c m k pairs t) = finished t"
  "initialDataChunks (header_state c m k pairs t) = initialDataChunks t"
  "initialHandlerOn (header_state c m k pairs t) = initialHandlerOn t"
  "writtenHeaderBytes (header_state c m k pairs t) = writtenHeaderBytes t"
  "entryCount (header_state c m k pairs t) = entryCount t"
  "u_hasBody (header_state c m k pairs t) = (u_hasBody t \<and> \<not> no_body_status c)"
  by (simp_all add: header_state_def)

text \<open>
  The outcomes of \<^verbatim>\<open>writeHead\<close> once its two guards are passed: a throw while the headers
  are merged or for the status message, a throw of \<^verbatim>\<open>_storeHeader\<close> before it changes
  anything, or the header-sent event emitted on the header state.
\<close>

lemma writeHead_outcomes:
  assumes "\<not> header_sent this" "100 \<le> toInt32 c" "toInt32 c \<le> 999"
  shows "(\<exists>err k. writeHead c reason obj this =
            (Some err, this\<lparr>statusMessage := Some (reason_message (toInt32 c) reason this),
                            statusCode := toInt32 c, kOutHeaders := k\<rparr>)) \<or>
         (\<exists>err k. writeHead c reason obj this =
            (Some err, status_flags (toInt32 c)
               (this\<lparr>statusMessage := Some (reason_message (toInt32 c) reason this),
                     statusCode := toInt32 c, kOutHeaders := k\<rparr>))) \<or>
         (\<exists>k pairs. writeHead c reason obj this =
            headersSentHandler (toInt32 c) (reason_message (toInt32 c) reason this) pairs
              (header_state (toInt32 c) (reason_message (toInt32 c) reason this) k pairs this))"
proof -
  let ?c = "toInt32 c" and ?m = "reason_message (toInt32 c) reason this"
  from writeHead_mid [OF assms, of reason obj] obtain obj' k e where
    eq: "writeHead c reason obj this =
           and_then (e, this\<lparr>statusMessage := Some ?m, statusCode := ?c, kOutHeaders := k\<rparr>)
             (writeHead_send ?c obj')" by blast
  let ?t = "this\<lparr>statusMessage := Some ?m, statusCode := ?c, kOutHeaders := k\<rparr>"
  show ?thesis
  proof (cases e)
    case (Some err)
    with eq have "writeHead c reason obj this = (Some err, ?t)" by simp
    then show ?thesis by blast
  next
    case None
    then have eq2: "writeHead c reason obj this = writeHead_send ?c obj' ?t"
      using eq by simp
    have m: "str_or (statusMessage ?t) [] = ?m" "statusCode ?t = ?c"
      by (simp_all add: str_or_def)
    from writeHead_send_cases [of ?c obj' ?t]
    consider (a) err where "writeHead_send ?c obj' ?t = (Some err, ?t)"
      | (b) err where "writeHead_send ?c obj' ?t = (Some err, status_flags ?c ?t)"
      | (c) pairs where "writeHead_send ?c obj' ?t =
          headersSentHandler ?c ?m pairs
            ((status_flags ?c ?t)\<lparr>u_header := Some (header_block (statusLine ?c ?m) pairs)\<rparr>)"
      unfolding m by blast
    then show ?thesis
    proof cases
      case a
      with eq2 show ?thesis by auto
    next
      case b
      with eq2 show ?thesis by auto
    next
      case c
      then have "writeHead c reason obj this =
          headersSentHandler ?c ?m pairs (header_state ?c ?m k pairs this)"
        using eq2 by (simp add: header_state_def)
      then show ?thesis by blast
    qed
  qed
qed

lemma writeHead_success_shape:
  assumes "fst (writeHead c reason obj this) = None"
  shows "\<exists>k pairs. writeHead c reason obj this =
           headersSentHandler (toInt32 c) (reason_message (toInt32 c) reason this) pairs
             (header_state (toInt32 c) (reason_message (toInt32 c) reason this) k pairs this)"
proof -
  from writeHead_guards [OF assms]
  have g: "\<not> header_sent this" "100 \<le> toInt32 c" "toInt32 c \<le> 999"
    by simp_all
  from writeHead_outcomes [OF g, of reason obj] assms show ?thesis
    by auto
qed

text \<open>
  What a \<^verbatim>\<open>writeHead\<close> that returns normally leaves: the header state with the bridge
  resolved by the response the header-sent listener constructed.
\<close>

lemma writeHead_success_state:
  assumes "fst (writeHead c reason obj this) = None"
  shows "\<exists>k pairs r.
           response_for (toInt32 c) (reason_message (toInt32 c) reason this) pairs
             (header_state (toInt32 c) (reason_message (toInt32 c) reason this) k pairs this) = Inr r \<and>
           snd (writeHead c reason obj this) =
             (header_state (toInt32 c) (reason_message (toInt32 c) reason this) k pairs this)
               \<lparr>initialHandlerOn := False,
                streams := (if u_hasBody this \<and> \<not> no_body_status (toInt32 c)
                      then streams this @ [\<lparr>queue = initialDataChunks this, closed = finished this,
                             s_finished = finished this, listening = \<not> finished this\<rparr>]
                      else streams this),
                fetchResponse := (case fetchResponse this of
                                    Some r0 \<Rightarrow> Some r0 | None \<Rightarrow> Some r)\<rparr>"
proof -
  from writeHead_success_shape [OF assms] obtain k pairs where
    eq: "writeHead c reason obj this =
           headersSentHandler (toInt32 c) (reason_message (toInt32 c) reason this) pairs
             (header_state (toInt32 c) (reason_message (toInt32 c) reason this) k pairs this)"
    by blast
  with assms have "fst (headersSentHandler (toInt32 c) (reason_message (toInt32 c) reason this) pairs
             (header_state (toInt32 c) (reason_message (toInt32 c) reason this) k pairs this)) = None"
    by simp
  from headersSentHandler_ok [OF this] obtain r where
    "response_for (toInt32 c) (reason_message (toInt32 c) reason this) pairs
       (header_state (toInt32 c) (reason_message (toInt32 c) reason this) k pairs this) = Inr r"
    and "snd (writeHead c reason obj this) =
       (header_state (toInt32 c) (reason_message (toInt32 c) reason this) k pairs this)
         \<lparr>initialHandlerOn := False,
          streams := (if u_hasBody this \<and> \<not> no_body_status (toInt32 c)
                then streams this @ [\<lparr>queue = initialDataChunks this, closed = finished this,
                       s_finished = finished this, listening = \<not> finished this\<rparr>]
                else streams this),
          fetchResponse := (case fetchResponse this of
                              Some r0 \<Rightarrow> Some r0 | None \<Rightarrow> Some r)\<rparr>"
    unfolding eq by auto
  then show ?thesis by blast
qed

lemma writeHead_success_sent:
  assumes "fst (writeHead c reason obj this) = None"
  shows "header_sent (snd (writeHead c reason obj this))"
    and "fetchResponse (snd (writeHead c reason obj this)) \<noteq> None"
proof -
  from writeHead_success_state [OF assms] obtain k pairs r where
    "snd (writeHead c reason obj this) =
             (header_state (toInt32 c) (reason_message (toInt32 c) reason this) k pairs this)
               \<lparr>initialHandlerOn := False,
                streams := (if u_hasBody this \<and> \<not> no_body_status (toInt32 c)
                      then streams this @ [\<lparr>queue = initialDataChunks this, closed = finished this,
                             s_finished = finished this, listening = \<not> finished this\<rparr>]
                      else streams this),
                fetchResponse := (case fetchResponse this of
                                    Some r0 \<Rightarrow> Some r0 | None \<Rightarrow> Some r)\<rparr>"
    by blast
  then show "header_sent (snd (writeHead c reason obj this))"
    and "fetchResponse (snd (writeHead c reason obj this)) \<noteq> None"
    by (simp_all add: header_sent_def split: option.splits)
qed

subsection \<open>Mutation after the headers are sent\<close>

text \<open>
  C5. Once the headers are sent (\<^verbatim>\<open>_header\<close> is set, which a successful \<^verbatim>\<open>writeHead\<close>
  brings about), a further \<^verbatim>\<open>writeHead\<close>, \<^verbatim>\<open>setHeader\<close>, \<^verbatim>\<open>appendHeader\<close> or \<^verbatim>\<open>removeHeader\<close>
  throws \<^verbatim>\<open>ERR_HTTP_HEADERS_SENT\<close> and leaves the whole object, the resolved response
  included, as it was.
\<close>

theorem headers_sent_rejects_mutation:
  assumes "header_sent this"
  shows "writeHead c reason obj this = (Some (ERR_HTTP_HEADERS_SENT ''write''), this) \<and>
         setHeader name v this = (Some (ERR_HTTP_HEADERS_SENT ''set''), this) \<and>
         appendHeader name v this = (Some (ERR_HTTP_HEADERS_SENT ''append''), this) \<and>
         removeHeader name this = (Some (ERR_HTTP_HEADERS_SENT ''remove''), this)"
  using assms by (simp add: writeHead_def setHeader_def appendHeader_def removeHeader_def)

theorem headers_sent_rejects_mutation_witness:
  "header_sent (snd (writeHead 200 (Hdrs Undefined) Undefined (new_FetchServerResponse get_request))) \<and>
   fetchResponse (snd (writeHead 200 (Hdrs Undefined) Undefined (new_FetchServerResponse get_request)))
     = Some \<lparr>status = 200, statusText = ''OK'', headers = [], body = Some 0\<rparr> \<and>
   writeHead 404 (Hdrs Undefined) Undefined
       (snd (writeHead 200 (Hdrs Undefined) Undefined (new_FetchServerResponse get_request)))
     = (Some (ERR_HTTP_HEADERS_SENT ''write''),
        snd (writeHead 200 (Hdrs Undefined) Undefined (new_FetchServerResponse get_request))) \<and>
   setHeader ''x-a'' (HString ''b'')
       (snd (writeHead 200 (Hdrs Undefined) Undefined (new_FetchServerResponse get_request)))
     = (Some (ERR_HTTP_HEADERS_SENT ''set''),
        snd (writeHead 200 (Hdrs Undefined) Undefined (new_FetchServerResponse get_request)))"
proof -
  have h: "header_sent (snd (writeHead 200 (Hdrs Undefined) Undefined (new_FetchServerResponse get_request)))"
    by (simp add: eval_defs)
  have r: "fetchResponse (snd (writeHead 200 (Hdrs Undefined) Undefined (new_FetchServerResponse get_request)))
     = Some \<lparr>status = 200, statusText = ''OK'', headers = [], body = Some 0\<rparr>"
    by (simp add: eval_defs)
  show ?thesis
    using h r headers_sent_rejects_mutation [OF h, of 404 "Hdrs Undefined" Undefined "''x-a''" "HString ''b''"]
    by simp
qed

subsection \<open>The listeners, field by field\<close>

lemma each_listener_list_all:
  assumes "list_all P cs" and "\<And>c. P c \<Longrightarrow> P (snd (h c))"
  shows "list_all P (snd (each_listener h cs))"
  using assms(1)
proof (induction cs)
  case Nil
  then show ?case by simp
next
  case (Cons c cs)
  then show ?case
    using assms(2) [of c]
    by (cases "h c") (auto split: prod.splits option.splits)
qed

lemma each_listener_skip:
  assumes "list_all (\<lambda>c. listening c \<longrightarrow> h c = (None, c)) cs"
  shows "each_listener h cs = (None, cs)"
  using assms by (induction cs) (auto split: if_splits)

lemma each_listener_finish_open:
  assumes "list_all (\<lambda>c. \<not> closed c) cs"
  shows "fst (each_listener stream_finish cs) = None \<and>
         list_all (\<lambda>c. listening c \<longrightarrow> s_finished c)
           (snd (each_listener stream_finish cs))"
  using assms
  by (induction cs) (auto simp add: stream_finish_def Let_def split: prod.splits option.splits)

lemma emit_finish_fields [simp]:
  "finished (snd (emit_finish this)) = True"
  "fetchResponse (snd (emit_finish this)) = fetchResponse this"
  "initialDataChunks (snd (emit_finish this)) = initialDataChunks this"
  "initialHandlerOn (snd (emit_finish this)) = initialHandlerOn this"
  "u_hasBody (snd (emit_finish this)) = u_hasBody this"
  "u_header (snd (emit_finish this)) = u_header this"
  by (simp_all add: emit_finish_def Let_def split: prod.splits)

lemma initialDataWrittenHandler_fields [simp]:
  "finished (snd (initialDataWrittenHandler bf i e this)) = finished this"
  "fetchResponse (snd (initialDataWrittenHandler bf i e this)) = fetchResponse this"
  "initialHandlerOn (snd (initialDataWrittenHandler bf i e this)) = initialHandlerOn this"
  "u_hasBody (snd (initialDataWrittenHandler bf i e this)) = u_hasBody this"
  "u_header (snd (initialDataWrittenHandler bf i e this)) = u_header this"
  "streams (snd (initialDataWrittenHandler bf i e this)) = streams this"
  "writtenHeaderBytes (snd (initialDataWrittenHandler bf i e this)) = writtenHeaderBytes this"
  by (simp_all add: initialDataWrittenHandler_def split: sum.splits)

lemma emit_dataWritten_fields [simp]:
  "finished (snd (emit_dataWritten bf i e this)) = finished this"
  "fetchResponse (snd (emit_dataWritten bf i e this)) = fetchResponse this"
  "initialHandlerOn (snd (emit_dataWritten bf i e this)) = initialHandlerOn this"
  "u_hasBody (snd (emit_dataWritten bf i e this)) = u_hasBody this"
  "u_header (snd (emit_dataWritten bf i e this)) = u_header this"
  by (simp_all add: emit_dataWritten_def initialDataWrittenHandler_def Let_def
        split: prod.splits sum.splits option.splits)

lemma same_bridge_refl [simp]: "same_bridge this this"
  by (simp add: same_bridge_def)

lemma header_op_same_bridge:
  "same_bridge (snd (setHeader n v this)) this"
  "same_bridge (snd (appendHeader n v this)) this"
  "same_bridge (snd (removeHeader n this)) this"
  by (simp_all add: same_bridge_def setHeader_def appendHeader_def removeHeader_def)

lemma header_state_same_bridge [simp]: "same_bridge (header_state c m k pairs this) this"
  by (simp add: same_bridge_def)

lemma writeHead_bridge:
  "same_bridge (snd (writeHead c reason obj this)) this \<or>
   (\<exists>st msg hs t0. snd (writeHead c reason obj this) = snd (headersSentHandler st msg hs t0) \<and>
        same_bridge t0 this \<and> u_hasBody t0 = (u_hasBody this \<and> \<not> no_body_status (toInt32 c)))"
proof (cases "\<not> header_sent this \<and> 100 \<le> toInt32 c \<and> toInt32 c \<le> 999")
  case False
  then have "snd (writeHead c reason obj this) = this"
    by (auto simp add: writeHead_def Let_def)
  then show ?thesis by simp
next
  case True
  then have g: "\<not> header_sent this" "100 \<le> toInt32 c" "toInt32 c \<le> 999" by simp_all
  let ?c = "toInt32 c" and ?m = "reason_message (toInt32 c) reason this"
  from writeHead_outcomes [OF g, of reason obj]
  consider (a) err k where "writeHead c reason obj this =
            (Some err, this\<lparr>statusMessage := Some ?m, statusCode := ?c, kOutHeaders := k\<rparr>)"
    | (b) err k where "writeHead c reason obj this =
            (Some err, status_flags ?c
               (this\<lparr>statusMessage := Some ?m, statusCode := ?c, kOutHeaders := k\<rparr>))"
    | (c) k pairs where "writeHead c reason obj this =
            headersSentHandler ?c ?m pairs (header_state ?c ?m k pairs this)"
    by blast
  then show ?thesis
  proof cases
    case a
    then show ?thesis by (simp add: same_bridge_def)
  next
    case b
    then show ?thesis by (simp add: same_bridge_def)
  next
    case c
    have "same_bridge (header_state ?c ?m k pairs this) this"
      "u_hasBody (header_state ?c ?m k pairs this) = (u_hasBody this \<and> \<not> no_body_status ?c)"
      by simp_all
    with c show ?thesis by metis
  qed
qed

lemma finish_inv_cong:
  "finished t = finished this \<Longrightarrow> streams t = streams this \<Longrightarrow> finish_inv t = finish_inv this"
  by (simp add: finish_inv_def)

lemma finish_inv_same_bridge: "same_bridge t this \<Longrightarrow> finish_inv t = finish_inv this"
  by (rule finish_inv_cong) (simp_all add: same_bridge_def)

lemma finish_inv_headersSentHandler:
  "finish_inv this \<Longrightarrow> finish_inv (snd (headersSentHandler st msg hs this))"
  by (simp add: headersSentHandler_snd finish_inv_def)

lemma emit_finish_streams:
  "streams (snd (emit_finish this)) = snd (each_listener stream_finish (streams this))"
  by (simp add: emit_finish_def Let_def case_prod_unfold)

lemma emit_dataWritten_streams:
  "streams (snd (emit_dataWritten bf i e this)) = streams this \<or>
   streams (snd (emit_dataWritten bf i e this)) =
     snd (each_listener (stream_dataWritten bf (writtenHeaderBytes this) i e) (streams this))"
  by (simp add: emit_dataWritten_def initialDataWrittenHandler_def Let_def case_prod_unfold
        split: sum.splits option.splits)

lemma finish_inv_emit_finish: "finish_inv this \<Longrightarrow> finish_inv (snd (emit_finish this))"
proof (cases "finished this")
  case True
  assume "finish_inv this"
  with True have "list_all (\<lambda>c. listening c \<longrightarrow> s_finished c) (streams this)"
    by (simp add: finish_inv_def)
  then have "list_all (\<lambda>c. listening c \<longrightarrow> s_finished c)
               (snd (each_listener stream_finish (streams this)))"
    by (rule each_listener_list_all) (simp add: stream_finish_def Let_def)
  then show ?thesis
    by (simp add: finish_inv_def emit_finish_streams)
next
  case False
  assume "finish_inv this"
  with False have "list_all (\<lambda>c. \<not> closed c) (streams this)"
    by (simp add: finish_inv_def)
  from each_listener_finish_open [OF this] show ?thesis
    by (simp add: finish_inv_def emit_finish_streams)
qed

lemma stream_dataWritten_flags [simp]:
  "closed (snd (stream_dataWritten bf whb i e c)) = closed c"
  "s_finished (snd (stream_dataWritten bf whb i e c)) = s_finished c"
  "listening (snd (stream_dataWritten bf whb i e c)) = listening c"
  by (simp_all add: stream_dataWritten_def split: sum.splits)

lemma emit_dataWritten_streams_all:
  assumes "list_all P (streams this)"
    and "\<And>whb c. P c \<Longrightarrow> P (snd (stream_dataWritten bf whb i e c))"
  shows "list_all P (streams (snd (emit_dataWritten bf i e this)))"
proof -
  have "\<And>whb. list_all P (snd (each_listener (stream_dataWritten bf whb i e) (streams this)))"
    using assms by (intro each_listener_list_all)
  then show ?thesis
    using assms(1) emit_dataWritten_streams [of bf i e this] by auto
qed

lemma finish_inv_emit_dataWritten:
  "finish_inv this \<Longrightarrow> finish_inv (snd (emit_dataWritten bf i e this))"
  unfolding finish_inv_def
  by (auto intro!: emit_dataWritten_streams_all)

lemma finish_inv_writeHead: "finish_inv this \<Longrightarrow> finish_inv (snd (writeHead c reason obj this))"
  using writeHead_bridge [of c reason obj this]
  by (auto simp add: finish_inv_same_bridge intro!: finish_inv_headersSentHandler)

subsection \<open>Properties kept by every action\<close>

lemma and_then_pred:
  assumes "Q (snd r)" and "\<And>s. Q s \<Longrightarrow> Q (snd (f s))"
  shows "Q (snd (and_then r f))"
proof (cases r)
  case (Pair e s)
  with assms show ?thesis by (cases e) simp_all
qed

lemma writeHead_preserves:
  assumes bridge: "\<And>t s. same_bridge t s \<Longrightarrow> Q s \<Longrightarrow> Q t"
    and hs: "\<And>st msg hs s. Q s \<Longrightarrow> Q (snd (headersSentHandler st msg hs s))"
    and "Q this"
  shows "Q (snd (writeHead c reason obj this))"
  using writeHead_bridge [of c reason obj this] assms by metis

lemma step_preserves:
  assumes bridge: "\<And>t s. same_bridge t s \<Longrightarrow> Q s \<Longrightarrow> Q t"
    and fin: "\<And>s. Q s \<Longrightarrow> Q (snd (emit_finish s))"
    and dw: "\<And>i e s. Q s \<Longrightarrow> Q (snd (emit_dataWritten bf i e s))"
    and hs: "\<And>st msg hs s. Q s \<Longrightarrow> Q (snd (headersSentHandler st msg hs s))"
    and "Q this"
  shows "Q (snd (step bf a this))"
proof -
  have wh: "\<And>c reason obj s. Q s \<Longrightarrow> Q (snd (writeHead c reason obj s))"
    using bridge hs by (rule writeHead_preserves [where Q = Q])
  have upd: "\<And>s n. Q s \<Longrightarrow> Q (s\<lparr>writtenHeaderBytes := n\<rparr>)"
            "\<And>s n. Q s \<Longrightarrow> Q (s\<lparr>entryCount := n\<rparr>)"
    by (erule bridge [rotated], simp add: same_bridge_def)+
  show ?thesis
  proof (cases a)
    case Finish
    then show ?thesis using fin assms(5) by (simp add: step_def)
  next
    case (DataWritten i e)
    then show ?thesis using dw assms(5) by (simp add: step_def)
  next
    case (HeadersSent st msg hs)
    then show ?thesis using hs assms(5) by (simp add: step_def emit_headersSent_def)
  next
    case (WriteHead c reason obj)
    then show ?thesis using wh assms(5) by (simp add: step_def)
  next
    case (Write d en)
    have "Q (snd (write_chunk bf d en this))"
      unfolding write_chunk_def
    proof (rule and_then_pred [where Q = Q], goal_cases)
      case 1
      show ?case
      proof (cases "header_sent this")
        case True
        then show ?thesis using assms(5) by simp
      next
        case False
        have "Q (snd (and_then (u_implicitHeader this)
                 (\<lambda>t. (None, t\<lparr>writtenHeaderBytes := length (the_default [] (u_header t))\<rparr>))))"
          by (rule and_then_pred [where Q = Q])
             (simp_all add: u_implicitHeader_def wh assms(5) upd)
        with False show ?thesis by simp
      qed
    next
      case (2 s)
      then show ?case by (intro dw upd)
    qed
    with Write show ?thesis by (simp add: step_def)
  next
    case End
    have "Q (snd (end_message this))"
      unfolding end_message_def
      by (rule and_then_pred [where Q = Q])
         (simp_all add: u_implicitHeader_def wh assms(5) fin)
    with End show ?thesis by (simp add: step_def)
  next
    case (SetHeader n v)
    then show ?thesis
      using bridge [OF header_op_same_bridge(1) assms(5)] by (simp add: step_def)
  next
    case (AppendHeader n v)
    then show ?thesis
      using bridge [OF header_op_same_bridge(2) assms(5)] by (simp add: step_def)
  next
    case (RemoveHeader n)
    then show ?thesis
      using bridge [OF header_op_same_bridge(3) assms(5)] by (simp add: step_def)
  qed
qed

lemma run_Nil [simp]: "run bf [] this = this"
  by (simp add: run_def)

lemma run_Cons [simp]: "run bf (a # acts) this = run bf acts (snd (step bf a this))"
  by (simp add: run_def)

lemma run_append [simp]: "run bf (xs @ ys) this = run bf ys (run bf xs this)"
  by (simp add: run_def)

lemma run_preserves:
  assumes bridge: "\<And>t s. same_bridge t s \<Longrightarrow> Q s \<Longrightarrow> Q t"
    and fin: "\<And>s. Q s \<Longrightarrow> Q (snd (emit_finish s))"
    and dw: "\<And>i e s. Q s \<Longrightarrow> Q (snd (emit_dataWritten bf i e s))"
    and hs: "\<And>st msg hs s. Q s \<Longrightarrow> Q (snd (headersSentHandler st msg hs s))"
    and "Q this"
  shows "Q (run bf acts this)"
  using assms(5)
proof (induction acts arbitrary: this)
  case Nil
  then show ?case by simp
next
  case (Cons a acts)
  have "Q (snd (step bf a this))"
    by (rule step_preserves [where Q = Q]) (fact bridge, fact fin, fact dw, fact hs, fact Cons.prems)
  then show ?case by (simp add: Cons.IH)
qed

lemma finish_inv_run: "finish_inv this \<Longrightarrow> finish_inv (run bf acts this)"
  by (rule run_preserves [where Q = finish_inv])
     (simp_all add: finish_inv_same_bridge finish_inv_emit_finish finish_inv_emit_dataWritten
        finish_inv_headersSentHandler)

lemma finished_run: "finished this \<Longrightarrow> finished (run bf acts this)"
  by (rule run_preserves [where Q = finished])
     (simp_all add: same_bridge_def headersSentHandler_snd)

lemma fetchResponse_run:
  "fetchResponse this = Some r \<Longrightarrow> fetchResponse (run bf acts this) = Some r"
  by (rule run_preserves [where Q = "\<lambda>s. fetchResponse s = Some r"])
     (simp_all add: same_bridge_def headersSentHandler_snd)

lemma finish_inv_new [simp]: "finish_inv (new_FetchServerResponse req)"
  by (simp add: finish_inv_def ctor_defs Let_def)

lemma post_finish_ignored:
  assumes "finish_inv this" and "finished this"
  shows "emit_dataWritten bf i e this = (None, this)"
proof -
  from assms have "list_all (\<lambda>c. listening c \<longrightarrow> s_finished c) (streams this)"
    by (simp add: finish_inv_def)
  then have "list_all (\<lambda>c. listening c \<longrightarrow>
                 stream_dataWritten bf (writtenHeaderBytes this) i e c = (None, c)) (streams this)"
    by (simp add: list_all_iff stream_dataWritten_def)
  then have "each_listener (stream_dataWritten bf (writtenHeaderBytes this) i e) (streams this)
               = (None, streams this)"
    by (rule each_listener_skip)
  then show ?thesis
    using assms(2) by (simp add: emit_dataWritten_def initialDataWrittenHandler_def)
qed


subsection \<open>Data written after the finish signal\<close>

text \<open>
  C10. Take a freshly constructed response and any sequence of events and calls in which
  the finish signal fires. In the state reached, a data-written event changes nothing
  and throws nothing: the buffering listener returns at \<^verbatim>\<open>if (finished)\<close>, every stream
  listener returns at its own \<^verbatim>\<open>if (finished)\<close>, so the body of the response gets no
  chunk from it.
\<close>

theorem data_after_finish_ignored:
  "emit_dataWritten bf i e (run bf (pre @ Finish # post) (new_FetchServerResponse req))
     = (None, run bf (pre @ Finish # post) (new_FetchServerResponse req)) \<and>
   body_chunks (snd (emit_dataWritten bf i e
       (run bf (pre @ Finish # post) (new_FetchServerResponse req))))
     = body_chunks (run bf (pre @ Finish # post) (new_FetchServerResponse req))"
proof -
  let ?s = "run bf (pre @ Finish # post) (new_FetchServerResponse req)"
  have "finish_inv ?s"
    by (rule finish_inv_run) simp
  moreover have "finished ?s"
    by (simp add: step_def finished_run)
  ultimately have "emit_dataWritten bf i e ?s = (None, ?s)"
    by (rule post_finish_ignored)
  then show ?thesis by simp
qed

subsection \<open>Statuses without a body\<close>

lemma toInt32_no_body: "no_body_status c \<Longrightarrow> toInt32 c = c"
  by (rule toInt32_id) (auto simp add: no_body_status_def)




subsection \<open>The default reason phrase\<close>

text \<open>
  C8. When \<^verbatim>\<open>writeHead\<close> passes its two guards, is given no reason phrase, and no status
  message was set before (it is undefined or empty), then \<^verbatim>\<open>this.statusMessage\<close> becomes the
  entry of \<^verbatim>\<open>STATUS_CODES\<close> for the status code (OK for 200, Not Found for 404, ...), or
  \<^verbatim>\<open>"unknown"\<close> when the table has none (299, 999). Once the headers are sent, the header
  block starts with the status line \<^verbatim>\<open>HTTP/1.1 <code> <phrase>\r\n\<close> carrying that phrase;
  if the call returns normally the headers are sent, and the response it resolves has
  that phrase as its status text.
\<close>

theorem writeHead_default_reason:
  assumes "\<not> header_sent this" and "100 \<le> toInt32 c" and "toInt32 c \<le> 999"
    and "statusMessage this = None \<or> statusMessage this = Some []"
  shows "statusMessage (snd (writeHead c (Hdrs h) obj this)) =
           Some (case STATUS_CODES (toInt32 c) of Some m \<Rightarrow> m | None \<Rightarrow> ''unknown'') \<and>
         (header_sent (snd (writeHead c (Hdrs h) obj this)) \<longrightarrow>
            (\<exists>rest. u_header (snd (writeHead c (Hdrs h) obj this)) =
               Some (''HTTP/1.1 '' @ string_of_int (toInt32 c) @ '' '' @
                  (case STATUS_CODES (toInt32 c) of Some m \<Rightarrow> m | None \<Rightarrow> ''unknown'') @
                  [CHR 0x0D, CHR 0x0A] @ rest))) \<and>
         (fst (writeHead c (Hdrs h) obj this) = None \<longrightarrow>
            header_sent (snd (writeHead c (Hdrs h) obj this)) \<and>
            (fetchResponse this = None \<longrightarrow>
               (\<exists>r. fetchResponse (snd (writeHead c (Hdrs h) obj this)) = Some r \<and>
                    status r = toInt32 c \<and>
                    statusText r =
                      (case STATUS_CODES (toInt32 c) of Some m \<Rightarrow> m | None \<Rightarrow> ''unknown'')))) \<and>
         STATUS_CODES 100 = Some ''Continue'' \<and> STATUS_CODES 200 = Some ''OK'' \<and>
         STATUS_CODES 204 = Some ''No Content'' \<and> STATUS_CODES 304 = Some ''Not Modified'' \<and>
         STATUS_CODES 404 = Some ''Not Found'' \<and>
         STATUS_CODES 500 = Some ''Internal Server Error'' \<and>
         STATUS_CODES 511 = Some ''Network Authentication Required'' \<and>
         STATUS_CODES 299 = None \<and> STATUS_CODES 999 = None"
proof -
  let ?c = "toInt32 c"
  let ?d = "case STATUS_CODES ?c of Some m \<Rightarrow> m | None \<Rightarrow> ''unknown''"
  let ?w = "writeHead c (Hdrs h) obj this"
  have "str_or (statusMessage this) (str_or (STATUS_CODES ?c) ''unknown'')
          = str_or (STATUS_CODES ?c) ''unknown''"
    using assms(4) by (auto simp add: str_or_def)
  then have m: "reason_message ?c (Hdrs h) this = ?d"
    by (simp add: reason_message_def default_reason)
  have line: "header_block (statusLine ?c ?d) pairs =
                ''HTTP/1.1 '' @ string_of_int ?c @ '' '' @ ?d @ [CHR 0x0D, CHR 0x0A] @
                (concat (map (\<lambda>(k, v). k @ '': '' @ v @ [CHR 0x0D, CHR 0x0A]) pairs)
                   @ [CHR 0x0D, CHR 0x0A])" for pairs
    by (simp add: header_block_def statusLine_def)
  from writeHead_outcomes [OF assms(1-3), of "Hdrs h" obj]
  consider (a) err k where "?w =
            (Some err, this\<lparr>statusMessage := Some ?d, statusCode := ?c, kOutHeaders := k\<rparr>)"
    | (b) err k where "?w =
            (Some err, status_flags ?c
               (this\<lparr>statusMessage := Some ?d, statusCode := ?c, kOutHeaders := k\<rparr>))"
    | (c) k pairs where "?w = headersSentHandler ?c ?d pairs (header_state ?c ?d k pairs this)"
    unfolding m by blast
  then have main: "statusMessage (snd ?w) = Some ?d \<and>
         (header_sent (snd ?w) \<longrightarrow>
            (\<exists>rest. u_header (snd ?w) =
               Some (''HTTP/1.1 '' @ string_of_int ?c @ '' '' @ ?d @ [CHR 0x0D, CHR 0x0A] @ rest))) \<and>
         (fst ?w = None \<longrightarrow> header_sent (snd ?w) \<and>
            (fetchResponse this = None \<longrightarrow>
               (\<exists>r. fetchResponse (snd ?w) = Some r \<and> status r = ?c \<and> statusText r = ?d)))"
  proof cases
    case a
    with assms(1) show ?thesis by (simp add: header_sent_def)
  next
    case b
    with assms(1) show ?thesis by (simp add: header_sent_def)
  next
    case c
    have hdr: "u_header (snd ?w) = Some (header_block (statusLine ?c ?d) pairs)"
      and msg: "statusMessage (snd ?w) = Some ?d"
      unfolding c by (simp_all add: headersSentHandler_snd)
    have sent: "header_sent (snd ?w)"
      by (simp add: header_sent_def hdr)
    have resp: "\<exists>r. fetchResponse (snd ?w) = Some r \<and> status r = ?c \<and> statusText r = ?d"
      if ok: "fst ?w = None" and pending: "fetchResponse this = None"
    proof -
      from ok have "fst (headersSentHandler ?c ?d pairs (header_state ?c ?d k pairs this)) = None"
        unfolding c .
      then obtain r where
        r: "response_for ?c ?d pairs (header_state ?c ?d k pairs this) = Inr r"
        by (auto simp add: headersSentHandler_fst split: sum.splits)
      have "?c mod 65536 = ?c"
        using assms(2,3) by simp
      then have "status r = ?c" "statusText r = ?d"
        using response_for_fields(1,2) [OF r] by simp_all
      moreover have "fetchResponse (snd ?w) = Some r"
        unfolding c using pending r by (simp add: headersSentHandler_snd)
      ultimately show ?thesis by blast
    qed
    from msg hdr sent resp show ?thesis
      unfolding line by blast
  qed
  have pins: "STATUS_CODES 100 = Some ''Continue''" "STATUS_CODES 200 = Some ''OK''"
    "STATUS_CODES 204 = Some ''No Content''" "STATUS_CODES 304 = Some ''Not Modified''"
    "STATUS_CODES 404 = Some ''Not Found''" "STATUS_CODES 500 = Some ''Internal Server Error''"
    "STATUS_CODES 511 = Some ''Network Authentication Required''"
    "STATUS_CODES 299 = None" "STATUS_CODES 999 = None"
    by (simp_all add: STATUS_CODES_def)
  from main pins show ?thesis by blast
qed

theorem writeHead_default_reason_witness:
  "\<not> header_sent (new_FetchServerResponse get_request) \<and>
   100 \<le> toInt32 404 \<and> toInt32 404 \<le> 999 \<and>
   (statusMessage (new_FetchServerResponse get_request) = None \<or>
    statusMessage (new_FetchServerResponse get_request) = Some []) \<and>
   fetchResponse (new_FetchServerResponse get_request) = None \<and>
   fst (writeHead 404 (Hdrs Undefined) Undefined (new_FetchServerResponse get_request)) = None \<and>
   statusMessage (snd (writeHead 404 (Hdrs Undefined) Undefined
       (new_FetchServerResponse get_request))) = Some ''Not Found'' \<and>
   u_header (snd (writeHead 404 (Hdrs Undefined) Undefined
       (new_FetchServerResponse get_request)))
     = Some (''HTTP/1.1 404 Not Found'' @ [CHR 0x0D, CHR 0x0A, CHR 0x0D, CHR 0x0A]) \<and>
   fetchResponse (snd (writeHead 404 (Hdrs Undefined) Undefined
       (new_FetchServerResponse get_request)))
     = Some \<lparr>status = 404, statusText = ''Not Found'', headers = [], body = Some 0\<rparr> \<and>
   fst (writeHead 299 (Hdrs Undefined) Undefined (new_FetchServerResponse get_request)) = None \<and>
   statusMessage (snd (writeHead 299 (Hdrs Undefined) Undefined
       (new_FetchServerResponse get_request))) = Some ''unknown'' \<and>
   u_header (snd (writeHead 299 (Hdrs Undefined) Undefined
       (new_FetchServerResponse get_request)))
     = Some (''HTTP/1.1 299 unknown'' @ [CHR 0x0D, CHR 0x0A, CHR 0x0D, CHR 0x0A]) \<and>
   fst (writeHead 600 (Hdrs Undefined) Undefined (new_FetchServerResponse get_request))
     = Some (RangeError ''status'') \<and>
   statusMessage (snd (writeHead 600 (Hdrs Undefined) Undefined
       (new_FetchServerResponse get_request))) = Some ''unknown'' \<and>
   fetchResponse (snd (writeHead 600 (Hdrs Undefined) Undefined
       (new_FetchServerResponse get_request))) = None"
proof -
  let ?s0 = "new_FetchServerResponse get_request"
  have h1: "\<not> header_sent ?s0"
    by simp
  have h2: "100 \<le> toInt32 404" and h3: "toInt32 404 \<le> 999"
    and g2: "100 \<le> toInt32 299" and g3: "toInt32 299 \<le> 999"
    and k2: "100 \<le> toInt32 600" and k3: "toInt32 600 \<le> 999"
    by (simp_all add: toInt32_def)
  have h4: "statusMessage ?s0 = None \<or> statusMessage ?s0 = Some []"
    by (simp add: ctor_defs Let_def)
  have h6: "fetchResponse ?s0 = None"
    by (simp add: ctor_defs Let_def)
  have t: "toInt32 404 = 404" "toInt32 299 = 299" "toInt32 600 = 600"
    by (simp_all add: toInt32_def)
  have ok: "fst (writeHead 404 (Hdrs Undefined) Undefined ?s0) = None"
    "fst (writeHead 299 (Hdrs Undefined) Undefined ?s0) = None"
    "fst (writeHead 600 (Hdrs Undefined) Undefined ?s0) = Some (RangeError ''status'')"
    by (simp_all add: eval_defs)
  have hdr: "u_header (snd (writeHead 404 (Hdrs Undefined) Undefined ?s0))
               = Some (''HTTP/1.1 404 Not Found'' @ [CHR 0x0D, CHR 0x0A, CHR 0x0D, CHR 0x0A])"
    "u_header (snd (writeHead 299 (Hdrs Undefined) Undefined ?s0))
               = Some (''HTTP/1.1 299 unknown'' @ [CHR 0x0D, CHR 0x0A, CHR 0x0D, CHR 0x0A])"
    "fetchResponse (snd (writeHead 404 (Hdrs Undefined) Undefined ?s0))
       = Some \<lparr>status = 404, statusText = ''Not Found'', headers = [], body = Some 0\<rparr>"
    "fetchResponse (snd (writeHead 600 (Hdrs Undefined) Undefined ?s0)) = None"
    by (simp_all add: eval_defs statusLine_def string_of_int_def)
  have tab: "STATUS_CODES 404 = Some ''Not Found''" "STATUS_CODES 299 = None"
    "STATUS_CODES 600 = None"
    by (simp_all add: STATUS_CODES_def)
  have m1: "statusMessage (snd (writeHead 404 (Hdrs Undefined) Undefined ?s0)) = Some ''Not Found''"
    using writeHead_default_reason [OF h1 h2 h3 h4, of Undefined Undefined, THEN conjunct1]
    by (simp add: t tab)
  have m2: "statusMessage (snd (writeHead 299 (Hdrs Undefined) Undefined ?s0)) = Some ''unknown''"
    using writeHead_default_reason [OF h1 g2 g3 h4, of Undefined Undefined, THEN conjunct1]
    by (simp add: t tab)
  have m3: "statusMessage (snd (writeHead 600 (Hdrs Undefined) Undefined ?s0)) = Some ''unknown''"
    using writeHead_default_reason [OF h1 k2 k3 h4, of Undefined Undefined, THEN conjunct1]
    by (simp add: t tab)
  from h1 h2 h3 h4 h6 ok hdr m1 m2 m3 show ?thesis
    by simp
qed

subsection \<open>The order of the body\<close>

lemma fill_simps [simp]:
  "fill xs [] = xs"
  "fill xs (ic # ics) = fill (array_set xs (fst ic) (snd ic)) ics"
  by (simp_all add: fill_def)

lemma data_events_simps [simp]:
  "data_events [] = []"
  "data_events (ie # ies) = DataWritten (fst ie) (snd ie) # data_events ies"
  by (simp_all add: data_events_def)

lemma array_set_beyond:
  "length xs \<le> i \<Longrightarrow> array_set xs i v = xs @ replicate (i - length xs) Nullish @ [v]"
  by (simp add: array_set_def)

lemma fill_filter:
  assumes "sorted_wrt (<) (map fst ics)"
    and "\<forall>i \<in> set (map fst ics). length xs \<le> i"
    and "\<forall>c \<in> set (map snd ics). c \<noteq> Nullish"
  shows "filter (\<lambda>c. c \<noteq> Nullish) (fill xs ics) = filter (\<lambda>c. c \<noteq> Nullish) xs @ map snd ics"
  using assms
proof (induction ics arbitrary: xs)
  case Nil
  then show ?case by simp
next
  case (Cons ic ics)
  let ?ys = "array_set xs (fst ic) (snd ic)"
  have ys: "?ys = xs @ replicate (fst ic - length xs) Nullish @ [snd ic]"
    using Cons.prems(2) by (simp add: array_set_beyond)
  have len: "length ?ys = Suc (fst ic)"
    using Cons.prems(2) by (simp add: ys)
  have "\<forall>i \<in> set (map fst ics). length ?ys \<le> i"
    using Cons.prems(1) by (auto simp add: len Suc_le_eq)
  moreover have "sorted_wrt (<) (map fst ics)" "\<forall>c \<in> set (map snd ics). c \<noteq> Nullish"
    using Cons.prems by simp_all
  ultimately have "filter (\<lambda>c. c \<noteq> Nullish) (fill ?ys ics)
                     = filter (\<lambda>c. c \<noteq> Nullish) ?ys @ map snd ics"
    by (intro Cons.IH)
  moreover have "filter (\<lambda>c. c \<noteq> Nullish) ?ys = filter (\<lambda>c. c \<noteq> Nullish) xs @ [snd ic]"
    using Cons.prems(3) by (simp add: ys)
  ultimately show ?case by simp
qed

lemma fill_consecutive:
  assumes "map fst ics = [length xs..<length xs + length ics]"
  shows "fill xs ics = xs @ map snd ics"
  using assms
proof (induction ics arbitrary: xs)
  case Nil
  then show ?case by simp
next
  case (Cons ic ics)
  have "[length xs..<length xs + length (ic # ics)]
          = length xs # [Suc (length xs)..<Suc (length xs) + length ics]"
    by (simp del: upt_Suc add: upt_conv_Cons)
  with Cons.prems have hd: "fst ic = length xs"
    and tl: "map fst ics = [Suc (length xs)..<Suc (length xs) + length ics]"
    by simp_all
  have ys: "array_set xs (fst ic) (snd ic) = xs @ [snd ic]"
    by (simp add: array_set_def hd)
  have "fill (xs @ [snd ic]) ics = (xs @ [snd ic]) @ map snd ics"
    by (rule Cons.IH) (simp add: tl)
  then show ?case by (simp add: ys)
qed

lemma encode_data_not_Nullish: "encode_data bf d en = Inr c \<Longrightarrow> c \<noteq> Nullish"
  by (auto simp add: encode_data_def split: payload.splits if_splits sum.splits)

lemma dataFromDataWrittenEvent_not_Nullish:
  "dataFromDataWrittenEvent bf whb i e = Inr c \<Longrightarrow> c \<noteq> Nullish"
  by (auto simp add: dataFromDataWrittenEvent_def split: sum.splits dest: encode_data_not_Nullish)

text \<open>Before the promise resolves, a data-written event stores its chunk in the array.\<close>

lemma buffering_step:
  assumes "initialHandlerOn t" "\<not> finished t" "streams t = []"
    and "dataFromDataWrittenEvent bf (writtenHeaderBytes t) i e = Inr c"
  shows "emit_dataWritten bf i e t = (None, t\<lparr>initialDataChunks := array_set (initialDataChunks t) i c\<rparr>)"
  using assms by (simp add: emit_dataWritten_def initialDataWrittenHandler_def)

lemma buffering_run:
  assumes "initialHandlerOn t" "\<not> finished t" "streams t = []" "writtenHeaderBytes t = whb"
    and "list_all2 (\<lambda>ie c. dataFromDataWrittenEvent bf whb (fst ie) (snd ie) = Inr c) ies cs"
  shows "run bf (data_events ies) t
           = t\<lparr>initialDataChunks := fill (initialDataChunks t) (zip (map fst ies) cs)\<rparr>"
  using assms(5) assms(1-4)
proof (induction ies cs arbitrary: t rule: list_all2_induct)
  case Nil
  then show ?case by simp
next
  case (Cons ie ies c cs)
  let ?t = "t\<lparr>initialDataChunks := array_set (initialDataChunks t) (fst ie) c\<rparr>"
  have st: "snd (step bf (DataWritten (fst ie) (snd ie)) t) = ?t"
    using buffering_step [OF Cons.prems(1-3), of bf "fst ie" "snd ie" c] Cons.hyps(1) Cons.prems(4)
    by (simp add: step_def)
  have "run bf (data_events ies) ?t
          = ?t\<lparr>initialDataChunks := fill (initialDataChunks ?t) (zip (map fst ies) cs)\<rparr>"
    using Cons.prems by (intro Cons.IH) simp_all
  then show ?case by (simp add: st)
qed

text \<open>After it resolved, a data-written event enqueues its chunk in the stream.\<close>

lemma streaming_step:
  assumes "\<not> initialHandlerOn t" "streams t = [ctl]" "listening ctl" "\<not> s_finished ctl" "\<not> closed ctl"
    and "dataFromDataWrittenEvent bf (writtenHeaderBytes t) i e = Inr c"
  shows "emit_dataWritten bf i e t = (None, t\<lparr>streams := [ctl\<lparr>queue := queue ctl @ [c]\<rparr>]\<rparr>)"
  using assms by (simp add: emit_dataWritten_def stream_dataWritten_def)

lemma streaming_run:
  assumes "\<not> initialHandlerOn t" "streams t = [ctl]" "listening ctl" "\<not> s_finished ctl" "\<not> closed ctl"
    and "writtenHeaderBytes t = whb"
    and "list_all2 (\<lambda>ie c. dataFromDataWrittenEvent bf whb (fst ie) (snd ie) = Inr c) ies cs"
  shows "run bf (data_events ies) t = t\<lparr>streams := [ctl\<lparr>queue := queue ctl @ cs\<rparr>]\<rparr>"
  using assms(7) assms(1-6)
proof (induction ies cs arbitrary: t ctl rule: list_all2_induct)
  case Nil
  then show ?case by simp
next
  case (Cons ie ies c cs)
  let ?ctl = "ctl\<lparr>queue := queue ctl @ [c]\<rparr>"
  let ?t = "t\<lparr>streams := [?ctl]\<rparr>"
  have st: "snd (step bf (DataWritten (fst ie) (snd ie)) t) = ?t"
    using streaming_step [OF Cons.prems(1-5), of bf "fst ie" "snd ie" c] Cons.hyps(1) Cons.prems(6)
    by (simp add: step_def)
  have "run bf (data_events ies) ?t = ?t\<lparr>streams := [?ctl\<lparr>queue := queue ?ctl @ cs\<rparr>]\<rparr>"
    using Cons.prems by (intro Cons.IH) simp_all
  then show ?case by (simp add: st)
qed

lemma materialized_not_Nullish:
  assumes "list_all2 (\<lambda>ie c. dataFromDataWrittenEvent bf whb (fst ie) (snd ie) = Inr c) ies cs"
  shows "\<forall>c \<in> set cs. c \<noteq> Nullish"
  using assms
  by (induction ies cs rule: list_all2_induct)
     (auto dest: dataFromDataWrittenEvent_not_Nullish)

lemma data_events_fetchResponse:
  "fetchResponse (run bf (data_events ies) t) = fetchResponse t"
  by (induction ies arbitrary: t) (simp_all add: step_def)

text \<open>
  C6. On a response whose bridge is as the constructor leaves it and which expects a
  body, let data-written events with strictly increasing indices arrive, then the
  header-sent event, then further data-written events, every chunk materializing without
  error. If \<^verbatim>\<open>_toFetchResponse\<close> returns a response for the event (the status is in
  200..599 and not a null-body status, status text and headers are well-formed), the
  promise resolves with it at the header-sent event, and its body consists of the array
  of the chunks buffered before, in their order of writing (with a hole of the array
  wherever an index was skipped, and none when the indices are 0, 1, 2, ...), followed
  by the chunks written afterwards, in their order of writing. If \<^verbatim>\<open>_toFetchResponse\<close>
  throws, the promise stays pending and there is no body to consume.
\<close>

theorem buffered_then_streamed_in_order:
  assumes "fetchResponse this = None" and "initialHandlerOn this" and "\<not> finished this"
    and "initialDataChunks this = []" and "streams this = []" and "u_hasBody this"
    and "sorted_wrt (<) (map fst pre)"
    and "list_all2 (\<lambda>ie c. dataFromDataWrittenEvent bf (writtenHeaderBytes this)
                              (fst ie) (snd ie) = Inr c) pre cs_pre"
    and "list_all2 (\<lambda>ie c. dataFromDataWrittenEvent bf (writtenHeaderBytes this)
                              (fst ie) (snd ie) = Inr c) post cs_post"
  shows "case response_for st msg hs this of
           Inr r \<Rightarrow>
             (\<exists>init.
                fetchResponse (run bf (data_events pre @ HeadersSent st msg hs # data_events post) this)
                  = Some r \<and>
                body r = Some 0 \<and>
                body_chunks (run bf (data_events pre @ HeadersSent st msg hs # data_events post) this)
                  = init @ cs_post \<and>
                filter (\<lambda>c. c \<noteq> Nullish) init = cs_pre \<and>
                (map fst pre = [0..<length pre] \<longrightarrow> init = cs_pre))
         | Inl err \<Rightarrow>
             fetchResponse (run bf (data_events pre @ HeadersSent st msg hs # data_events post) this)
               = None \<and>
             body_chunks (run bf (data_events pre @ HeadersSent st msg hs # data_events post) this)
               = []"
proof (cases "response_for st msg hs this")
  case (Inl err)
  let ?ics = "zip (map fst pre) cs_pre"
  let ?t1 = "this\<lparr>initialDataChunks := fill [] ?ics\<rparr>"
  have p1: "run bf (data_events pre) this = ?t1"
    using buffering_run [OF assms(2,3,5) refl assms(8)] assms(4) by simp
  have same: "response_for st msg hs ?t1 = response_for st msg hs this"
    by (simp add: response_for_def split: sum.splits)
  have "fetchResponse (snd (step bf (HeadersSent st msg hs) ?t1)) = None"
    using assms(1) Inl
    by (simp add: step_def emit_headersSent_def headersSentHandler_snd same)
  then have "fetchResponse (run bf (data_events pre @ HeadersSent st msg hs # data_events post) this)
               = None"
    by (simp add: p1 data_events_fetchResponse)
  with Inl show ?thesis
    by (simp add: body_chunks_def)
next
  case (Inr r)
  let ?ics = "zip (map fst pre) cs_pre"
  let ?init = "fill [] ?ics"
  let ?t1 = "this\<lparr>initialDataChunks := ?init\<rparr>"
  let ?ctl = "\<lparr>queue = ?init, closed = False, s_finished = False, listening = True\<rparr>"
  let ?t2 = "?t1\<lparr>initialHandlerOn := False, streams := [?ctl], fetchResponse := Some r\<rparr>"
  have len: "length pre = length cs_pre"
    using assms(8) by (rule list_all2_lengthD)
  have fst_ics: "map fst ?ics = map fst pre" and snd_ics: "map snd ?ics = cs_pre"
    using len by simp_all
  have p1: "run bf (data_events pre) this = ?t1"
    using buffering_run [OF assms(2,3,5) refl assms(8)] assms(4) by simp
  have "response_for st msg hs ?t1 = response_for st msg hs this"
    by (simp add: response_for_def split: sum.splits)
  with Inr have same: "response_for st msg hs ?t1 = Inr r"
    by simp
  then have ok: "\<not> isl (append_all hs [])"
    by (auto simp add: response_for_def split: sum.splits)
  have p2: "snd (step bf (HeadersSent st msg hs) ?t1) = ?t2"
    using assms(1,3,5,6) same ok
    by (simp add: step_def emit_headersSent_def headersSentHandler_snd)
  have p3: "run bf (data_events post) ?t2 = ?t2\<lparr>streams := [?ctl\<lparr>queue := queue ?ctl @ cs_post\<rparr>]\<rparr>"
    by (rule streaming_run [where whb = "writtenHeaderBytes this"]) (simp_all add: assms(9))
  have final: "run bf (data_events pre @ HeadersSent st msg hs # data_events post) this
                 = ?t2\<lparr>streams := [?ctl\<lparr>queue := queue ?ctl @ cs_post\<rparr>]\<rparr>"
    by (simp add: p1 p2 p3)
  have b: "body r = Some 0"
    using response_for_fields(3) [OF Inr] assms(5,6) by simp
  have resp: "fetchResponse (run bf (data_events pre @ HeadersSent st msg hs # data_events post) this)
                = Some r"
    unfolding final by simp
  have chunks: "body_chunks (run bf (data_events pre @ HeadersSent st msg hs # data_events post) this)
                = ?init @ cs_post"
    unfolding final by (simp add: body_chunks_def b)
  have "filter (\<lambda>c. c \<noteq> Nullish) ?init = filter (\<lambda>c. c \<noteq> Nullish) [] @ map snd ?ics"
  proof (rule fill_filter)
    show "sorted_wrt (<) (map fst ?ics)"
      using assms(7) by (simp only: fst_ics)
    show "\<forall>i \<in> set (map fst ?ics). length [] \<le> i"
      by simp
    show "\<forall>c \<in> set (map snd ?ics). c \<noteq> Nullish"
      using materialized_not_Nullish [OF assms(8)] by (simp only: snd_ics)
  qed
  then have holes: "filter (\<lambda>c. c \<noteq> Nullish) ?init = cs_pre"
    by (simp only: snd_ics filter.simps append_Nil)
  have consec: "?init = cs_pre" if "map fst pre = [0..<length pre]"
  proof -
    have "map fst ?ics = [length ([] :: payload list)..<length ([] :: payload list) + length ?ics]"
      using that len by (simp only: fst_ics) simp
    then have "?init = [] @ map snd ?ics"
      by (rule fill_consecutive)
    then show ?thesis by (simp only: snd_ics append_Nil)
  qed
  from resp chunks holes consec b have
    "\<exists>init.
        fetchResponse (run bf (data_events pre @ HeadersSent st msg hs # data_events post) this)
          = Some r \<and>
        body r = Some 0 \<and>
        body_chunks (run bf (data_events pre @ HeadersSent st msg hs # data_events post) this)
          = init @ cs_post \<and>
        filter (\<lambda>c. c \<noteq> Nullish) init = cs_pre \<and>
        (map fst pre = [0..<length pre] \<longrightarrow> init = cs_pre)"
    by blast
  with Inr show ?thesis by simp
qed

theorem buffered_then_streamed_in_order_witness:
  "fetchResponse (new_FetchServerResponse get_request) = None \<and>
   initialHandlerOn (new_FetchServerResponse get_request) \<and>
   \<not> finished (new_FetchServerResponse get_request) \<and>
   u_hasBody (new_FetchServerResponse get_request) \<and>
   sorted_wrt (<) (map fst [(0::nat, Entry (Str ''ab'') EUndefined), (1, Entry (Bin [7]) EUndefined)]) \<and>
   response_for 200 ''OK'' [] (new_FetchServerResponse get_request)
     = Inr \<lparr>status = 200, statusText = ''OK'', headers = [], body = Some 0\<rparr> \<and>
   fetchResponse (run (\<lambda>s n. Inr [])
       (data_events [(0::nat, Entry (Str ''ab'') EUndefined), (1, Entry (Bin [7]) EUndefined)]
          @ HeadersSent 200 ''OK'' [] # data_events [(2::nat, Entry (Str ''c'') (EStr ''utf8''))])
       (new_FetchServerResponse get_request))
     = Some \<lparr>status = 200, statusText = ''OK'', headers = [], body = Some 0\<rparr> \<and>
   body_chunks (run (\<lambda>s n. Inr [])
       (data_events [(0::nat, Entry (Str ''ab'') EUndefined), (1, Entry (Bin [7]) EUndefined)]
          @ HeadersSent 200 ''OK'' [] # data_events [(2::nat, Entry (Str ''c'') (EStr ''utf8''))])
       (new_FetchServerResponse get_request))
     = [Bin (encode ''ab''), Bin [7], Bin (encode ''c'')] \<and>
   response_for 100 ''Continue'' [] (new_FetchServerResponse get_request)
     = Inl (RangeError ''status'') \<and>
   fetchResponse (run (\<lambda>s n. Inr [])
       (data_events [(0::nat, Entry (Str ''ab'') EUndefined), (1, Entry (Bin [7]) EUndefined)]
          @ HeadersSent 100 ''Continue'' [] # data_events [(2::nat, Entry (Str ''c'') (EStr ''utf8''))])
       (new_FetchServerResponse get_request))
     = None"
proof -
  let ?s0 = "new_FetchServerResponse get_request"
  let ?pre = "[(0::nat, Entry (Str ''ab'') EUndefined), (1, Entry (Bin [7]) EUndefined)]"
  let ?post = "[(2::nat, Entry (Str ''c'') (EStr ''utf8''))]"
  have h: "fetchResponse ?s0 = None" "initialHandlerOn ?s0" "\<not> finished ?s0"
    "initialDataChunks ?s0 = []" "streams ?s0 = []" "u_hasBody ?s0"
    by (simp_all add: ctor_defs Let_def)
  have s: "sorted_wrt (<) (map fst ?pre)"
    by simp
  have whb: "writtenHeaderBytes ?s0 = 0"
    by (simp add: ctor_defs Let_def)
  have m1: "list_all2 (\<lambda>ie c. dataFromDataWrittenEvent (\<lambda>s n. Inr []) (writtenHeaderBytes ?s0)
                              (fst ie) (snd ie) = Inr c) ?pre [Bin (encode ''ab''), Bin [7]]"
    by (simp add: whb dataFromDataWrittenEvent_def strip_first_def encode_data_def)
  have m2: "list_all2 (\<lambda>ie c. dataFromDataWrittenEvent (\<lambda>s n. Inr []) (writtenHeaderBytes ?s0)
                              (fst ie) (snd ie) = Inr c) ?post [Bin (encode ''c'')]"
    by (simp add: whb dataFromDataWrittenEvent_def strip_first_def encode_data_def)
  have c: "map fst ?pre = [0..<length ?pre]"
    by (simp add: upt_conv_Cons)
  have r1: "response_for 200 ''OK'' [] ?s0
              = Inr \<lparr>status = 200, statusText = ''OK'', headers = [], body = Some 0\<rparr>"
    and r2: "response_for 100 ''Continue'' [] ?s0 = Inl (RangeError ''status'')"
    using h(5,6)
    by (simp_all add: response_for_def new_Response_def null_body_status_def
          checkInvalidHeaderChar_def headerChar_ok_def)
  from buffered_then_streamed_in_order [OF h s m1 m2, of 200 "''OK''" "[]"]
    buffered_then_streamed_in_order [OF h s m1 m2, of 100 "''Continue''" "[]"]
    c h s r1 r2
  show ?thesis by auto
qed

subsection \<open>Scenarios on a fresh response\<close>

lemma new_fields [simp]:
  "u_hasBody (new_FetchServerResponse req) = (req_method req \<noteq> Some ''HEAD'')"
  "u_header (new_FetchServerResponse req) = None"
  "writtenHeaderBytes (new_FetchServerResponse req) = 0"
  "kOutHeaders (new_FetchServerResponse req) = None"
  "entryCount (new_FetchServerResponse req) = 0"
  "statusCode (new_FetchServerResponse req) = 200"
  "statusMessage (new_FetchServerResponse req) = None"
  "u_sent100 (new_FetchServerResponse req) = False"
  "u_expect_continue (new_FetchServerResponse req) = False"
  "finished (new_FetchServerResponse req) = False"
  "initialDataChunks (new_FetchServerResponse req) = []"
  "initialHandlerOn (new_FetchServerResponse req) = True"
  "fetchResponse (new_FetchServerResponse req) = None"
  "streams (new_FetchServerResponse req) = []"
  by (simp_all add: ctor_defs Let_def)

lemmas write_defs = write_chunk_def end_message_def u_implicitHeader_def emit_dataWritten_def
  emit_finish_def initialDataWrittenHandler_def stream_dataWritten_def stream_finish_def
  dataFromDataWrittenEvent_def strip_first_def encode_data_def prepend_header_def
  the_default_def body_chunks_def statusLine_def string_of_int_def

declare string_of_nat.simps [simp del]

lemma string_of_200 [simp]: "string_of_nat 200 = ''200''"
  by (simp add: string_of_nat.simps)


text \<open>
  C7. \<^verbatim>\<open>writeHead(200, {"content-type": "text/plain"})\<close>, \<^verbatim>\<open>write("hello")\<close>, \<^verbatim>\<open>end()\<close> on a
  fresh response: no call throws, the promise resolves with status 200, status text OK
  and the header content-type: text/plain, and the body holds one chunk, the UTF-8
  bytes of "hello", and is closed.
\<close>

theorem hello_scenario:
  "(let r1 = writeHead 200 (Hdrs (Obj [(''content-type'', HString ''text/plain'')])) Undefined
               (new_FetchServerResponse get_request);
        r2 = write_chunk bf (Str ''hello'') EUndefined (snd r1);
        r3 = end_message (snd r2)
    in fst r1 = None \<and> fst r2 = None \<and> fst r3 = None \<and>
       fetchResponse (snd r3) =
         Some \<lparr>status = 200, statusText = ''OK'',
               headers = [(''content-type'', ''text/plain'')], body = Some 0\<rparr> \<and>
       body_chunks (snd r3) = [Bin (encode ''hello'')] \<and>
       encode ''hello'' = [104, 101, 108, 108, 111] \<and>
       map closed (streams (snd r3)) = [True])"
  by (simp add: eval_defs write_defs encode_def utf8_char_def)


text \<open>
  C1, at the input where the code departs from it. A number arrives as the first body
  chunk of a fresh response, with no \<^verbatim>\<open>writeHead\<close> before. If the data-written event
  reaches the bridge while the promise is pending, the listener throws
  \<^verbatim>\<open>ERR_INVALID_ARG_TYPE\<close> and the object is unchanged: the promise stays pending, and it has
  no way to reject. If the write goes through the modelled base class, the headers are
  sent implicitly first: the write throws the same error, and the promise has resolved
  with an ordinary 200 response whose body holds no chunk and is not closed.
\<close>

theorem materialization_failure_not_surfaced:
  "emit_dataWritten bf 0 (Entry Other EUndefined) (new_FetchServerResponse get_request)
     = (Some (ERR_INVALID_ARG_TYPE ''packet.data''), new_FetchServerResponse get_request) \<and>
   fetchResponse (new_FetchServerResponse get_request) = None \<and>
   fst (write_chunk bf Other EUndefined (new_FetchServerResponse get_request))
     = Some (ERR_INVALID_ARG_TYPE ''packet.data'') \<and>
   fetchResponse (snd (write_chunk bf Other EUndefined (new_FetchServerResponse get_request)))
     = Some \<lparr>status = 200, statusText = ''OK'', headers = [], body = Some 0\<rparr> \<and>
   body_chunks (snd (write_chunk bf Other EUndefined (new_FetchServerResponse get_request))) = [] \<and>
   map closed (streams (snd (write_chunk bf Other EUndefined
                               (new_FetchServerResponse get_request)))) = [False]"
  by (simp add: eval_defs write_defs)


subsection \<open>HEAD requests\<close>

text \<open>
  The constructor clears \<^verbatim>\<open>_hasBody\<close> when the method it reads is HEAD, and a response
  that resolves while \<^verbatim>\<open>_hasBody\<close> is false has a \<^verbatim>\<open>null\<close> body.
\<close>

lemma head_at_construction:
  "req_method req = Some ''HEAD'' \<Longrightarrow> \<not> u_hasBody (new_FetchServerResponse req)"
  by simp

lemma no_body_expected_null_body:
  assumes "\<not> u_hasBody this" and "fetchResponse this = None"
    and "fst (emit_headersSent st msg hs this) = None"
  shows "\<exists>r. fetchResponse (snd (emit_headersSent st msg hs this)) = Some r \<and> body r = None"
proof -
  from assms(3) have "fst (headersSentHandler st msg hs this) = None"
    by (simp add: emit_headersSent_def)
  from headersSentHandler_ok [OF this] obtain r where
    r: "response_for st msg hs this = Inr r"
    and "fetchResponse (snd (headersSentHandler st msg hs this)) = Some r"
    using assms(2) by auto
  with response_for_fields(3) [OF r] assms(1) show ?thesis
    by (simp add: emit_headersSent_def)
qed


text \<open>
  C9, at the input where the code departs from it. \<^verbatim>\<open>toReqRes\<close> constructs the response
  from the incoming message before it assigns \<^verbatim>\<open>incoming.method\<close>. So for a HEAD request,
  unless the incoming message came with the method HEAD already, the pair it returns
  has the method HEAD and a response that still expects a body: after \<^verbatim>\<open>writeHead(200)\<close>,
  \<^verbatim>\<open>write("x")\<close>, \<^verbatim>\<open>end()\<close> the resolved response has a stream as its body, holding the
  bytes of "x".
\<close>

theorem head_request_keeps_body:
  assumes "req_method incoming \<noteq> Some ''HEAD''"
  shows "req_method (fst (toReqRes incoming ''HEAD'')) = Some ''HEAD'' \<and>
         u_hasBody (snd (toReqRes incoming ''HEAD'')) \<and>
         fetchResponse (run bf [WriteHead 200 (Hdrs Undefined) Undefined, Write (Str ''x'') EUndefined, End]
                          (snd (toReqRes incoming ''HEAD'')))
           = Some \<lparr>status = 200, statusText = ''OK'', headers = [], body = Some 0\<rparr> \<and>
         body_chunks (run bf [WriteHead 200 (Hdrs Undefined) Undefined, Write (Str ''x'') EUndefined, End]
                          (snd (toReqRes incoming ''HEAD'')))
           = [Bin (encode ''x'')]"
proof -
  let ?res = "new_FetchServerResponse incoming"
  have t: "toReqRes incoming ''HEAD'' =
            (incoming\<lparr>httpVersionMajor := Num 1, httpVersionMinor := Num 1, req_method := Some ''HEAD''\<rparr>, ?res)"
    by (simp add: toReqRes_def Let_def)
  have hb: "u_hasBody ?res"
    using assms by simp
  have w: "writeHead 200 (Hdrs Undefined) Undefined ?res =
      (None, ?res\<lparr>statusMessage := Some ''OK'', statusCode := 200,
                 u_header := Some (header_block (statusLine 200 ''OK'') []),
                 initialHandlerOn := False,
                 streams := [\<lparr>queue = [], closed = False, s_finished = False, listening = True\<rparr>],
                 fetchResponse := Some \<lparr>status = 200, statusText = ''OK'', headers = [], body = Some 0\<rparr>\<rparr>)"
    using hb
    by (simp add: writeHead_def header_sent_def toInt32_def Let_def STATUS_CODES_def
      str_or_def writeHead_send_def checkInvalidHeaderChar_def headerChar_ok_def
      no_body_status_def status_flags_def u_storeHeader_def chosen_headers_def header_pairs_def
      emit_headersSent_def headersSentHandler_def u_toFetchResponse_def new_Response_def
      null_body_status_def)
  show ?thesis
    unfolding t using assms
    by (simp add: step_def w write_defs header_sent_def header_block_def)
qed

theorem head_request_keeps_body_witness:
  "req_method \<lparr>req_method = None, httpVersionMajor = NumUndefined,
                httpVersionMinor = NumUndefined, te_chunked = False\<rparr> \<noteq> Some ''HEAD'' \<and>
   req_method (fst (toReqRes \<lparr>req_method = None, httpVersionMajor = NumUndefined,
                httpVersionMinor = NumUndefined, te_chunked = False\<rparr> ''HEAD'')) = Some ''HEAD'' \<and>
   body_chunks (run (\<lambda>s n. Inr [])
       [WriteHead 200 (Hdrs Undefined) Undefined, Write (Str ''x'') EUndefined, End]
       (snd (toReqRes \<lparr>req_method = None, httpVersionMajor = NumUndefined,
                httpVersionMinor = NumUndefined, te_chunked = False\<rparr> ''HEAD'')))
     = [Bin [120]]"
proof -
  have h: "req_method \<lparr>req_method = None, httpVersionMajor = NumUndefined,
                httpVersionMinor = NumUndefined, te_chunked = False\<rparr> \<noteq> Some ''HEAD''"
    by simp
  show ?thesis
    using h head_request_keeps_body [OF h, of "\<lambda>s n. Inr []"]
    by (simp add: encode_def utf8_char_def)
qed

subsection \<open>Implicit headers and the first chunk\<close>

lemma write_actions_simps [simp]:
  "write_actions [] = []"
  "write_actions (w # ws) = Write (fst w) (snd w) # write_actions ws"
  by (simp_all add: write_actions_def)

lemma strip_at_index_0:
  "dataFromDataWrittenEvent bf whb 0 (Entry (Str x) en) = encode_data bf (Str (drop whb x)) en"
  by (simp add: dataFromDataWrittenEvent_def strip_first_def)

lemma no_strip_later:
  "0 < i \<Longrightarrow> dataFromDataWrittenEvent bf whb i (Entry d en) = encode_data bf d en"
  by (simp add: dataFromDataWrittenEvent_def strip_first_def split: sum.splits)

text \<open>
  The first write on a response whose headers are not sent, when the implicit header is
  accepted: the header-sent listener resolved the promise with status 200 and created
  the stream; the entry carries the header block in front of the payload.
\<close>

lemma implicit_header_state:
  assumes "\<not> header_sent this" "statusCode this = 200" "fetchResponse this = None"
    "\<not> finished this" "initialDataChunks this = []" "streams this = []" "u_hasBody this"
    and "fst (u_implicitHeader this) = None"
  shows "\<exists>h r t. u_implicitHeader this = (None, t) \<and> u_header t = Some h \<and> h \<noteq> [] \<and>
           fetchResponse t = Some r \<and> status r = 200 \<and> body r = Some 0 \<and>
           \<not> initialHandlerOn t \<and> entryCount t = entryCount this \<and>
           streams t = [\<lparr>queue = [], closed = False, s_finished = False, listening = True\<rparr>]"
proof -
  have w: "u_implicitHeader this = writeHead 200 (Hdrs Undefined) Undefined this"
    by (simp add: u_implicitHeader_def assms(2))
  have c: "toInt32 200 = 200" "\<not> no_body_status 200"
    by (simp_all add: toInt32_def no_body_status_def)
  let ?m = "reason_message 200 (Hdrs Undefined) this"
  from assms(8) have ok: "fst (writeHead 200 (Hdrs Undefined) Undefined this) = None"
    by (simp add: w)
  from writeHead_success_state [OF ok] obtain k pairs r where
    r: "response_for 200 ?m pairs (header_state 200 ?m k pairs this) = Inr r"
    and shape: "snd (writeHead 200 (Hdrs Undefined) Undefined this) =
             (header_state 200 ?m k pairs this)
               \<lparr>initialHandlerOn := False,
                streams := (if u_hasBody this \<and> \<not> no_body_status 200
                      then streams this @ [\<lparr>queue = initialDataChunks this, closed = finished this,
                             s_finished = finished this, listening = \<not> finished this\<rparr>]
                      else streams this),
                fetchResponse := (case fetchResponse this of
                                    Some r0 \<Rightarrow> Some r0 | None \<Rightarrow> Some r)\<rparr>"
    unfolding c by blast
  let ?t = "snd (writeHead 200 (Hdrs Undefined) Undefined this)"
  have "u_implicitHeader this = (None, ?t)"
    using ok by (simp add: w prod_eq_iff)
  moreover have "u_header ?t = Some (header_block (statusLine 200 ?m) pairs)"
    "fetchResponse ?t = Some r" "\<not> initialHandlerOn ?t" "entryCount ?t = entryCount this"
    "streams ?t = [\<lparr>queue = [], closed = False, s_finished = False, listening = True\<rparr>]"
    unfolding shape using assms(3-7) c(2) by simp_all
  moreover have "status r = 200" "body r = Some 0"
    using response_for_fields(1,3) [OF r] assms(6,7) c(2) by simp_all
  ultimately show ?thesis
    using header_block_nonempty by blast
qed

lemma first_write_general:
  assumes "\<not> header_sent this" and "u_implicitHeader this = (None, t)" and "u_header t = Some h"
  shows "write_chunk bf d en this =
           emit_dataWritten bf (entryCount t) (Entry (prepend_header h d) en)
             (t\<lparr>writtenHeaderBytes := length h, entryCount := entryCount t + 1\<rparr>)"
  using assms by (simp add: write_chunk_def the_default_def)

lemma write_on_stream:
  assumes "\<not> initialHandlerOn t" "streams t = [ctl]" "listening ctl"
    "\<not> s_finished ctl" "\<not> closed ctl"
  shows "snd (emit_dataWritten bf i e t) =
           t\<lparr>streams := [ctl\<lparr>queue := queue ctl @
               (case dataFromDataWrittenEvent bf (writtenHeaderBytes t) i e of
                  Inr c \<Rightarrow> [c] | Inl err \<Rightarrow> [])\<rparr>]\<rparr>"
proof (cases "dataFromDataWrittenEvent bf (writtenHeaderBytes t) i e")
  case (Inl err)
  have "ctl\<lparr>queue := queue ctl\<rparr> = ctl" "t\<lparr>streams := [ctl]\<rparr> = t"
    using assms(2) by simp_all
  with Inl assms show ?thesis
    by (simp add: emit_dataWritten_def stream_dataWritten_def)
next
  case (Inr c)
  with assms show ?thesis
    by (simp add: emit_dataWritten_def stream_dataWritten_def)
qed

lemma later_write:
  assumes "header_sent t" "\<not> initialHandlerOn t" "streams t = [ctl]" "listening ctl"
    "\<not> s_finished ctl" "\<not> closed ctl" "0 < entryCount t"
  shows "snd (write_chunk bf d en t) =
           t\<lparr>entryCount := Suc (entryCount t),
             streams := [ctl\<lparr>queue := queue ctl @ chunk_of bf (d, en)\<rparr>]\<rparr>"
proof -
  let ?t = "t\<lparr>entryCount := entryCount t + 1\<rparr>"
  have "write_chunk bf d en t = emit_dataWritten bf (entryCount t) (Entry d en) ?t"
    using assms(1) by (simp add: write_chunk_def)
  moreover have "snd (emit_dataWritten bf (entryCount t) (Entry d en) ?t) =
           ?t\<lparr>streams := [ctl\<lparr>queue := queue ctl @
               (case dataFromDataWrittenEvent bf (writtenHeaderBytes ?t) (entryCount t) (Entry d en) of
                  Inr c \<Rightarrow> [c] | Inl err \<Rightarrow> [])\<rparr>]\<rparr>"
    by (rule write_on_stream) (simp_all add: assms)
  ultimately show ?thesis
    using assms(7) by (simp add: no_strip_later chunk_of_def)
qed

lemma later_writes:
  assumes "header_sent t" "\<not> initialHandlerOn t" "streams t = [ctl]" "listening ctl"
    "\<not> s_finished ctl" "\<not> closed ctl" "0 < entryCount t"
  shows "run bf (write_actions ws) t =
           t\<lparr>entryCount := entryCount t + length ws,
             streams := [ctl\<lparr>queue := queue ctl @ concat (map (chunk_of bf) ws)\<rparr>]\<rparr>"
  using assms
proof (induction ws arbitrary: t ctl)
  case Nil
  then show ?case by simp
next
  case (Cons w ws)
  let ?ctl = "ctl\<lparr>queue := queue ctl @ chunk_of bf w\<rparr>"
  let ?t = "t\<lparr>entryCount := Suc (entryCount t), streams := [?ctl]\<rparr>"
  have st: "snd (step bf (Write (fst w) (snd w)) t) = ?t"
    using later_write [OF Cons.prems, of bf "fst w" "snd w"] by (simp add: step_def)
  have "run bf (write_actions ws) ?t =
          ?t\<lparr>entryCount := entryCount ?t + length ws,
              streams := [?ctl\<lparr>queue := queue ?ctl @ concat (map (chunk_of bf) ws)\<rparr>]\<rparr>"
    using Cons.prems by (intro Cons.IH) (simp_all add: header_sent_def)
  then show ?case by (simp add: st)
qed




end
